theory Spec2Isabelle
  imports Complex_Main "HOL-Library.AList" "HOL-Library.Product_Lexorder"
begin

section \<open>Python dictionaries\<close>

text \<open>
  A Python \<open>dict\<close> keeps its keys in insertion order, and the manager iterates its
  dictionaries, so a dictionary is an association list with distinct keys:
  \<open>d[k] = v\<close> is \<^const>\<open>AList.update\<close> (in place for a known key, appended for a new
  one), \<open>del d[k]\<close> / \<open>d.pop(k, None)\<close> is \<^const>\<open>AList.delete\<close>, \<open>d.get(k)\<close> is
  \<^const>\<open>map_of\<close>.  The two registries are \<open>defaultdict(dict)\<close>: reading a missing
  key inserts an empty bucket.
\<close>

type_synonym ('k, 'v) dict = "('k \<times> 'v) list"

definition dd_get :: "('k, ('j, 'v) dict) dict \<Rightarrow> 'k \<Rightarrow> ('j, 'v) dict" where
  "dd_get d k = (case map_of d k of None \<Rightarrow> [] | Some b \<Rightarrow> b)"

definition dd_touch :: "('k, ('j, 'v) dict) dict \<Rightarrow> 'k \<Rightarrow> ('k, ('j, 'v) dict) dict" where
  "dd_touch d k = (case map_of d k of None \<Rightarrow> d @ [(k, [])] | Some b \<Rightarrow> d)"

definition dd_set :: "('k, ('j, 'v) dict) dict \<Rightarrow> 'k \<Rightarrow> 'j \<Rightarrow> 'v \<Rightarrow> ('k, ('j, 'v) dict) dict" where
  "dd_set d k j v = AList.update k (AList.update j v (dd_get d k)) d"

section \<open>String similarity: \<open>difflib.get_close_matches\<close>\<close>

text \<open>
  The report calls \<open>get_close_matches(name, commands_names, n=1, cutoff=0.0)\<close> of the
  Python standard library.  It scores every candidate \<open>x\<close> with
  \<open>SequenceMatcher(a=x, b=word).ratio()\<close> (no junk function, \<open>autojunk\<close> on) and
  returns the largest pair \<open>(score, x)\<close>.  The score \<open>2.0 * matches / length\<close> is a
  quotient of two small integers, kept here as a rational.
\<close>

definition b2j :: "string \<Rightarrow> char \<Rightarrow> nat list" where
  "b2j b elt =
     (let idxs = filter (\<lambda>j. b ! j = elt) [0..<length b]
      in if 200 \<le> length b \<and> length b div 100 + 1 < length idxs then [] else idxs)"

type_synonym best = "nat \<times> nat \<times> nat"

fun flm_inner ::
  "nat \<Rightarrow> nat \<Rightarrow> nat \<Rightarrow> (nat \<Rightarrow> nat) \<Rightarrow> nat list \<Rightarrow> best \<times> (nat \<Rightarrow> nat) \<Rightarrow> best \<times> (nat \<Rightarrow> nat)" where
  "flm_inner i blo bhi j2len [] acc = acc"
| "flm_inner i blo bhi j2len (j # js) (best, newj2len) =
     (if j < blo then flm_inner i blo bhi j2len js (best, newj2len)
      else if bhi \<le> j then (best, newj2len)
      else
        let k = (if j = 0 then 0 else j2len (j - 1)) + 1
        in flm_inner i blo bhi j2len js
             (if snd (snd best) < k then (i + 1 - k, j + 1 - k, k) else best, newj2len(j := k)))"

fun flm_outer ::
  "string \<Rightarrow> string \<Rightarrow> nat \<Rightarrow> nat \<Rightarrow> nat list \<Rightarrow> best \<times> (nat \<Rightarrow> nat) \<Rightarrow> best" where
  "flm_outer a b blo bhi [] (best, j2len) = best"
| "flm_outer a b blo bhi (i # is) (best, j2len) =
     flm_outer a b blo bhi is (flm_inner i blo bhi j2len (b2j b (a ! i)) (best, (\<lambda>_. 0)))"

function extend_left :: "string \<Rightarrow> string \<Rightarrow> nat \<Rightarrow> nat \<Rightarrow> best \<Rightarrow> best" where
  "extend_left a b alo blo (besti, bestj, bestsize) =
     (if alo < besti \<and> blo < bestj \<and> a ! (besti - 1) = b ! (bestj - 1)
      then extend_left a b alo blo (besti - 1, bestj - 1, bestsize + 1)
      else (besti, bestj, bestsize))"
  by pat_completeness auto
termination
  by (relation "measure (\<lambda>(a, b, alo, blo, besti, bestj, bestsize). besti)") auto

function extend_right :: "string \<Rightarrow> string \<Rightarrow> nat \<Rightarrow> nat \<Rightarrow> best \<Rightarrow> best" where
  "extend_right a b ahi bhi (besti, bestj, bestsize) =
     (if besti + bestsize < ahi \<and> bestj + bestsize < bhi
         \<and> a ! (besti + bestsize) = b ! (bestj + bestsize)
      then extend_right a b ahi bhi (besti, bestj, bestsize + 1)
      else (besti, bestj, bestsize))"
  by pat_completeness auto
termination
  by (relation "measure (\<lambda>(a, b, ahi, bhi, besti, bestj, bestsize). ahi - (besti + bestsize))") auto

text \<open>
  \<open>find_longest_match\<close>.  No junk function is given, so \<open>bjunk\<close> is empty: the two loops
  that extend over junk never run, and the two that extend over non-junk test equality only.
\<close>

definition find_longest_match :: "string \<Rightarrow> string \<Rightarrow> nat \<Rightarrow> nat \<Rightarrow> nat \<Rightarrow> nat \<Rightarrow> best" where
  "find_longest_match a b alo ahi blo bhi =
     extend_right a b ahi bhi
       (extend_left a b alo blo
          (flm_outer a b blo bhi [alo..<ahi] ((alo, blo, 0), (\<lambda>_. 0))))"

text \<open>
  The \<open>while queue:\<close> loop of \<open>get_matching_blocks\<close>; \<open>queue.pop()\<close> takes the last
  element.  It terminates because a block found in a range lies inside it, so the ranges
  pushed back are strictly smaller than the one popped.
\<close>

lemma flm_inner_bounds:
  assumes "alo \<le> i" "\<forall>j. j2len j \<le> i - alo"
    and "alo \<le> fst best" "fst best + snd (snd best) \<le> i + 1"
  shows "alo \<le> fst (fst (flm_inner i blo bhi j2len js (best, new)))
       \<and> fst (fst (flm_inner i blo bhi j2len js (best, new)))
           + snd (snd (fst (flm_inner i blo bhi j2len js (best, new)))) \<le> i + 1"
  using assms(3,4)
proof (induction js arbitrary: best new)
  case Nil
  then show ?case by simp
next
  case (Cons j js)
  define k where "k = (if j = 0 then 0 else j2len (j - 1)) + 1"
  have "j2len (j - 1) \<le> i - alo" using assms(2) by blast
  then have k: "k \<le> i + 1 - alo" "0 < k" using assms(1) by (auto simp: k_def)
  have upd: "alo \<le> fst (i + 1 - k, j + 1 - k, k)"
    "fst (i + 1 - k, j + 1 - k, k) + snd (snd (i + 1 - k, j + 1 - k, k)) \<le> i + 1"
    using k assms(1) by auto
  show ?case
  proof (cases "j < blo")
    case True
    then show ?thesis using Cons.IH[OF Cons.prems] by simp
  next
    case False
    show ?thesis
    proof (cases "bhi \<le> j")
      case True
      then show ?thesis using False Cons.prems by simp
    next
      case F2: False
      show ?thesis
      proof (cases "snd (snd best) < k")
        case True
        then show ?thesis using False F2 Cons.IH[OF upd] by (simp add: k_def Let_def)
      next
        case F3: False
        then show ?thesis using False F2 Cons.IH[OF Cons.prems] by (simp add: k_def Let_def)
      qed
    qed
  qed
qed

lemma flm_inner_j2len:
  assumes "\<forall>j. j2len j \<le> m" "\<forall>j. new j \<le> m + 1"
  shows "\<forall>j. snd (flm_inner i blo bhi j2len js (best, new)) j \<le> m + 1"
  using assms(2)
proof (induction js arbitrary: best new)
  case Nil
  then show ?case by simp
next
  case (Cons j js)
  define k where "k = (if j = 0 then 0 else j2len (j - 1)) + 1"
  have "j2len (j - 1) \<le> m" using assms(1) by blast
  then have upd: "\<forall>x. (new(j := k)) x \<le> m + 1"
    using Cons.prems by (auto simp: k_def)
  show ?case
  proof (cases "j < blo")
    case True
    then show ?thesis using Cons.IH[OF Cons.prems] by simp
  next
    case False
    show ?thesis
    proof (cases "bhi \<le> j")
      case True
      then show ?thesis using False Cons.prems by simp
    next
      case F2: False
      have step: "flm_inner i blo bhi j2len (j # js) (best, new) =
          flm_inner i blo bhi j2len js
            (if snd (snd best) < k then (i + 1 - k, j + 1 - k, k) else best, new(j := k))"
        using False F2 by (simp add: k_def Let_def)
      show ?thesis unfolding step by (rule Cons.IH[OF upd])
    qed
  qed
qed

lemma flm_outer_bounds:
  assumes "alo \<le> i0" "\<forall>j. j2len j \<le> i0 - alo"
    and "alo \<le> fst best" "fst best + snd (snd best) \<le> max i0 (min i0 ahi)"
  shows "alo \<le> fst (flm_outer a b blo bhi [i0..<ahi] (best, j2len))
       \<and> fst (flm_outer a b blo bhi [i0..<ahi] (best, j2len))
           + snd (snd (flm_outer a b blo bhi [i0..<ahi] (best, j2len))) \<le> max i0 ahi"
  using assms
proof (induction "ahi - i0" arbitrary: i0 best j2len)
  case 0
  then show ?case by simp
next
  case (Suc d)
  then have lt: "i0 < ahi" by simp
  obtain best' new' where r: "flm_inner i0 blo bhi j2len (b2j b (a ! i0)) (best, (\<lambda>_. 0)) = (best', new')"
    by (cases "flm_inner i0 blo bhi j2len (b2j b (a ! i0)) (best, (\<lambda>_. 0))")
  have b1: "fst best + snd (snd best) \<le> i0 + 1" using Suc.prems(4) lt by simp
  from flm_inner_bounds[OF Suc.prems(1) Suc.prems(2) Suc.prems(3) b1, of blo bhi "b2j b (a ! i0)" "\<lambda>_. 0"] r
  have bb: "alo \<le> fst best'" "fst best' + snd (snd best') \<le> i0 + 1" by simp_all
  have "\<forall>j. (\<lambda>_. 0::nat) j \<le> (i0 - alo) + 1" by simp
  from flm_inner_j2len[OF Suc.prems(2) this, of i0 blo bhi "b2j b (a ! i0)" best] r
  have jj: "\<forall>j. new' j \<le> Suc i0 - alo" using Suc.prems(1) by (simp add: Suc_diff_le)
  have d: "d = ahi - Suc i0" using Suc.hyps(2) by simp
  have le: "alo \<le> Suc i0" using Suc.prems(1) by simp
  have b2: "fst best' + snd (snd best') \<le> max (Suc i0) (min (Suc i0) ahi)" using bb lt by simp
  from Suc.hyps(1)[OF d le jj bb(1) b2] lt r
  show ?case by (simp add: upt_conv_Cons)
qed

lemma extend_left_bounds:
  "alo \<le> fst best \<Longrightarrow>
   alo \<le> fst (extend_left a b alo blo best)
   \<and> fst (extend_left a b alo blo best) + snd (snd (extend_left a b alo blo best)) = fst best + snd (snd best)"
proof (induction a b alo blo best rule: extend_left.induct)
  case (1 a b alo blo besti bestj bestsize)
  then show ?case by (auto simp del: extend_left.simps simp add: extend_left.simps[of a b alo blo besti bestj bestsize])
qed

lemma extend_right_bounds:
  "fst best + snd (snd best) \<le> m \<Longrightarrow> ahi \<le> m \<Longrightarrow>
   fst (extend_right a b ahi bhi best) = fst best
   \<and> fst best + snd (snd (extend_right a b ahi bhi best)) \<le> m"
proof (induction a b ahi bhi best rule: extend_right.induct)
  case (1 a b ahi bhi besti bestj bestsize)
  then show ?case by (auto simp del: extend_right.simps simp add: extend_right.simps[of a b ahi bhi besti bestj bestsize])
qed

lemma find_longest_match_bounds:
  assumes "find_longest_match a b alo ahi blo bhi = (i, j, k)"
  shows "alo \<le> i \<and> i + k \<le> max alo ahi"
proof -
  let ?o = "flm_outer a b blo bhi [alo..<ahi] ((alo, blo, 0), (\<lambda>_. 0))"
  have o: "alo \<le> fst ?o \<and> fst ?o + snd (snd ?o) \<le> max alo ahi"
    by (rule flm_outer_bounds) simp_all
  let ?l = "extend_left a b alo blo ?o"
  have l: "alo \<le> fst ?l \<and> fst ?l + snd (snd ?l) = fst ?o + snd (snd ?o)"
    using extend_left_bounds o by blast
  have "fst (extend_right a b ahi bhi ?l) = fst ?l
      \<and> fst ?l + snd (snd (extend_right a b ahi bhi ?l)) \<le> max alo ahi"
    by (rule extend_right_bounds) (use l o in simp_all)
  then show ?thesis using assms l by (simp add: find_longest_match_def)
qed


function matching_loop ::
  "string \<Rightarrow> string \<Rightarrow> (nat \<times> nat \<times> nat \<times> nat) list \<Rightarrow> best list \<Rightarrow> best list" where
  "matching_loop a b queue matching_blocks =
     (if queue = [] then matching_blocks
      else
        let alo = fst (last queue); ahi = fst (snd (last queue));
            blo = fst (snd (snd (last queue))); bhi = snd (snd (snd (last queue)));
            x = find_longest_match a b alo ahi blo bhi;
            i = fst x; j = fst (snd x); k = snd (snd x)
        in if k \<noteq> 0 then
             matching_loop a b
               (butlast queue
                  @ (if alo < i \<and> blo < j then [(alo, i, blo, j)] else [])
                  @ (if i + k < ahi \<and> j + k < bhi then [(i + k, ahi, j + k, bhi)] else []))
               (matching_blocks @ [x])
           else matching_loop a b (butlast queue) matching_blocks)"
  by pat_completeness auto

definition queue_weight :: "(nat \<times> nat \<times> nat \<times> nat) list \<Rightarrow> nat" where
  "queue_weight queue = sum_list (map (\<lambda>(alo, ahi, blo, bhi). 2 * (ahi - alo) + 1) queue)"

lemma queue_weight_butlast:
  "queue \<noteq> [] \<Longrightarrow>
   queue_weight queue =
     queue_weight (butlast queue) + (2 * (fst (snd (last queue)) - fst (last queue)) + 1)"
proof -
  assume "queue \<noteq> []"
  then have "queue = butlast queue @ [last queue]" by simp
  then have "queue_weight queue = queue_weight (butlast queue @ [last queue])" by simp
  also have "\<dots> = queue_weight (butlast queue) + (2 * (fst (snd (last queue)) - fst (last queue)) + 1)"
    by (simp add: queue_weight_def case_prod_beta)
  finally show ?thesis .
qed

termination matching_loop
proof (relation "measure (\<lambda>(a, b, queue, blocks). queue_weight queue)", goal_cases)
  case 1
  then show ?case by simp
next
  case (2 a b queue blocks alo ahi blo bhi x i j k)
  have fb: "alo \<le> i \<and> i + k \<le> max alo ahi"
    using 2 find_longest_match_bounds[of a b alo ahi blo bhi i j k] by simp
  have "k \<noteq> 0" using 2 by simp
  with fb have "(if alo < i \<and> blo < j then 2 * (i - alo) + 1 else 0)
      + (if i + k < ahi \<and> j + k < bhi then 2 * (ahi - (i + k)) + 1 else 0) < 2 * (ahi - alo) + 1"
    by (auto split: if_splits)
  then show ?case
    using 2(1) 2(2) 2(3) queue_weight_butlast[of queue]
    by (auto simp: queue_weight_def)
next
  case (3 a b queue blocks alo ahi blo bhi x i j k)
  then show ?case using queue_weight_butlast[of queue] by simp
qed

declare matching_loop.simps [simp del]

fun collapse :: "best \<Rightarrow> best list \<Rightarrow> best list" where
  "collapse (i1, j1, k1) [] = (if k1 \<noteq> 0 then [(i1, j1, k1)] else [])"
| "collapse (i1, j1, k1) ((i2, j2, k2) # rest) =
     (if i1 + k1 = i2 \<and> j1 + k1 = j2 then collapse (i1, j1, k1 + k2) rest
      else (if k1 \<noteq> 0 then [(i1, j1, k1)] else []) @ collapse (i2, j2, k2) rest)"

definition get_matching_blocks :: "string \<Rightarrow> string \<Rightarrow> best list" where
  "get_matching_blocks a b =
     collapse (0, 0, 0) (sort (matching_loop a b [(0, length a, 0, length b)] []))
       @ [(length a, length b, 0)]"

definition calculate_ratio :: "int \<Rightarrow> nat \<Rightarrow> rat" where
  "calculate_ratio matches len = (if len \<noteq> 0 then 2 * of_int matches / of_nat len else 1)"

definition ratio :: "string \<Rightarrow> string \<Rightarrow> rat" where
  "ratio a b =
     calculate_ratio (int (sum_list (map (\<lambda>(i, j, k). k) (get_matching_blocks a b))))
       (length a + length b)"

fun quick_loop :: "(char \<Rightarrow> int) \<Rightarrow> string \<Rightarrow> (char \<Rightarrow> int option) \<Rightarrow> int \<Rightarrow> int" where
  "quick_loop fullbcount [] avail matches = matches"
| "quick_loop fullbcount (elt # rest) avail matches =
     (let numb = (case avail elt of Some n \<Rightarrow> n | None \<Rightarrow> fullbcount elt)
      in quick_loop fullbcount rest (avail(elt \<mapsto> numb - 1)) (if 0 < numb then matches + 1 else matches))"

definition quick_ratio :: "string \<Rightarrow> string \<Rightarrow> rat" where
  "quick_ratio a b =
     calculate_ratio (quick_loop (\<lambda>elt. int (count_list b elt)) a Map.empty 0) (length a + length b)"

definition real_quick_ratio :: "string \<Rightarrow> string \<Rightarrow> rat" where
  "real_quick_ratio a b = calculate_ratio (int (min (length a) (length b))) (length a + length b)"

text \<open>Python compares strings by code point, lexicographically.\<close>

fun str_less :: "string \<Rightarrow> string \<Rightarrow> bool" where
  "str_less [] [] = False"
| "str_less [] (y # ys) = True"
| "str_less (x # xs) [] = False"
| "str_less (x # xs) (y # ys) =
     ((of_char x :: nat) < of_char y \<or> (x = y \<and> str_less xs ys))"

definition scored_less :: "rat \<times> string \<Rightarrow> rat \<times> string \<Rightarrow> bool" where
  "scored_less p q = (fst p < fst q \<or> (fst p = fst q \<and> str_less (snd p) (snd q)))"

text \<open>\<open>heapq.nlargest(1, result)\<close> is \<open>max(result)\<close>: the first maximal element.\<close>

fun nlargest1 :: "(rat \<times> string) option \<Rightarrow> (rat \<times> string) list \<Rightarrow> (rat \<times> string) option" where
  "nlargest1 m [] = m"
| "nlargest1 None (p # ps) = nlargest1 (Some p) ps"
| "nlargest1 (Some m) (p # ps) = nlargest1 (Some (if scored_less m p then p else m)) ps"

fun scored :: "rat \<Rightarrow> string \<Rightarrow> string list \<Rightarrow> (rat \<times> string) list" where
  "scored cutoff word [] = []"
| "scored cutoff word (x # xs) =
     (if cutoff \<le> real_quick_ratio x word \<and> cutoff \<le> quick_ratio x word \<and> cutoff \<le> ratio x word
      then (ratio x word, x) # scored cutoff word xs
      else scored cutoff word xs)"

text \<open>\<open>get_close_matches(word, possibilities, n=1, cutoff=0.0)\<close>.\<close>

definition get_close_matches :: "string \<Rightarrow> string list \<Rightarrow> string list" where
  "get_close_matches word possibilities =
     (case nlargest1 None (scored 0 word possibilities) of None \<Rightarrow> [] | Some (score, x) \<Rightarrow> [x])"

section \<open>Commands, pending subcommands, plugins\<close>

text \<open>
  The three command universes of the host framework and their two shapes.  The
  \<open>isinstance\<close> tests of the source follow the host's class hierarchy: a hybrid command
  is a prefix command, a hybrid group is a prefix group, a prefix group is a prefix
  command; the slash classes are unrelated to them and to each other.
\<close>

datatype ckind = PrefixCommand | PrefixGroup | HybridCommand | HybridGroup | AppCommand | AppGroup

fun is_app_Command :: "ckind \<Rightarrow> bool" where
  "is_app_Command k = (k = AppCommand)"

fun is_app_Group :: "ckind \<Rightarrow> bool" where
  "is_app_Group k = (k = AppGroup)"

fun is_commands_Command :: "ckind \<Rightarrow> bool" where
  "is_commands_Command k = (k \<in> {PrefixCommand, PrefixGroup, HybridCommand, HybridGroup})"

fun is_commands_Group :: "ckind \<Rightarrow> bool" where
  "is_commands_Group k = (k \<in> {PrefixGroup, HybridGroup})"

fun is_HybridCommand :: "ckind \<Rightarrow> bool" where
  "is_HybridCommand k = (k = HybridCommand)"

fun is_HybridGroup :: "ckind \<Rightarrow> bool" where
  "is_HybridGroup k = (k = HybridGroup)"

type_synonym cid = nat
type_synonym sid = nat

text \<open>
  A command object of the host: its name, its class, its parent reference, its children
  (for a group), its error handler, and the \<open>__subcommand__\<close> attribute that the
  \<open>@subcommand\<close> decorator leaves on its callback.
\<close>

record command =
  c_name :: string
  c_kind :: ckind
  c_parent :: "cid option"
  c_children :: "(string, cid) dict"
  c_on_error :: "nat option"
  c_subcommand :: "sid option"

text \<open>The class \<open>_Subcommand\<close>: \<open>group_name\<close>, \<open>_command\<close>, \<open>_group\<close>.\<close>

record subcommand =
  group_name :: string
  sub_command :: cid
  sub_group :: "cid option"

fun determine_command_type :: "ckind \<Rightarrow> string" where
  "determine_command_type k =
     (if is_app_Command k then ''app command''
      else if is_commands_Command k then ''command''
      else if is_app_Group k \<or> is_commands_Group k then ''group''
      else ''unknown'')"

fun determine_command_group :: "ckind \<Rightarrow> string" where
  "determine_command_group k =
     (if is_app_Command k then ''App command group''
      else if is_commands_Command k then ''Command group''
      else if is_app_Group k \<or> is_commands_Group k then ''Group''
      else ''unknown'')"

text \<open>
  A plugin (cog): its qualified name and the commands that \<open>cog.walk_commands()\<close> and
  \<open>cog.walk_app_commands()\<close> enumerate, in that order.
\<close>

record cog =
  cog_name :: string
  cog_commands :: "cid list"
  cog_app_commands :: "cid list"

text \<open>
  The message of the \<open>RuntimeError\<close> of the report, field by field:
  \<open>"{command group} {group_name!r} for {command type} {name!r} in cog {cog!r} was not found."\<close>
  followed by \<open>" Did you mean {didyoumean[0]!r}?"\<close> when there is a suggestion.
\<close>

record message =
  m_command_group :: string
  m_group_name :: string
  m_command_type :: string
  m_name :: string
  m_cog :: string
  m_didyoumean :: "string option"

datatype error =
    TypeError_not_a_group string cid
  | TypeError_cannot_add ckind ckind
  | ValueError_already_subcommand string
  | ValueError_group_required
  | RuntimeError message
  | KeyError string
  | RecursionError

text \<open>
  The whole state: the interpreter's heap of command and \<open>_Subcommand\<close> objects (both
  are shared by reference, so they live in a store), the bot, the manager's slots, and
  the lines the manager has printed to standard output.
\<close>

record state =
  objs :: "cid \<Rightarrow> command"
  subs :: "sid \<Rightarrow> subcommand"
  bot_commands :: "(string, cid) dict"
  tree_commands :: "(string, cid) dict"
  cogs :: "(string, cog) dict"
  recursion_limit :: nat
  copy_group_error_handler :: bool
  check_group_type :: bool
  commands :: "(string, (string, sid) dict) dict"
  not_found :: "(string, (string, sid) dict) dict"
  stdout :: "string list"

section \<open>The host framework\<close>

text \<open>
  Modelled from the spec: the host command framework is an external collaborator whose
  code is not part of this repository.  Section 6 of the specification lists what the
  manager consumes from it: plugin-add and plugin-remove, the enumeration of all commands
  registered in each universe, attach-child and detach-child on a group, and reading a
  command's parent and qualified name.  They are modelled as the plain registry
  operations these words describe.  Enumerations recurse through groups and qualified
  names follow parent references; the interpreter bounds that depth
  (\<^const>\<open>recursion_limit\<close>), and exceeding it is \<^const>\<open>RecursionError\<close>.
\<close>

fun walk_commands :: "nat \<Rightarrow> (cid \<Rightarrow> command) \<Rightarrow> cid list \<Rightarrow> cid list option" where
  "walk_commands d h [] = Some []"
| "walk_commands 0 h (c # cs) = None"
| "walk_commands (Suc d) h (c # cs) =
     (case (if is_commands_Group (c_kind (h c)) \<or> is_app_Group (c_kind (h c))
            then walk_commands d h (map snd (c_children (h c))) else Some []) of
        None \<Rightarrow> None
      | Some below \<Rightarrow>
          (case walk_commands (Suc d) h cs of
             None \<Rightarrow> None
           | Some others \<Rightarrow> Some (c # below @ others)))"

fun qualified_name :: "nat \<Rightarrow> (cid \<Rightarrow> command) \<Rightarrow> cid \<Rightarrow> string option" where
  "qualified_name 0 h c = None"
| "qualified_name (Suc d) h c =
     (case c_parent (h c) of
        None \<Rightarrow> Some (c_name (h c))
      | Some p \<Rightarrow> map_option (\<lambda>q. q @ '' '' @ c_name (h c)) (qualified_name d h p))"

text \<open>\<open>bot.remove_command(name)\<close> and \<open>bot.tree.remove_command(name)\<close>.\<close>

definition bot_remove_command :: "string \<Rightarrow> state \<Rightarrow> state" where
  "bot_remove_command n s = s\<lparr>bot_commands := AList.delete n (bot_commands s)\<rparr>"

definition tree_remove_command :: "string \<Rightarrow> state \<Rightarrow> state" where
  "tree_remove_command n s = s\<lparr>tree_commands := AList.delete n (tree_commands s)\<rparr>"

text \<open>\<open>group.add_command(command)\<close>: attach-child.\<close>

definition group_add_command :: "cid \<Rightarrow> cid \<Rightarrow> state \<Rightarrow> state" where
  "group_add_command g c s =
     (let h1 = (objs s)(c := (objs s c)\<lparr>c_parent := Some g\<rparr>);
          h2 = h1(g := (h1 g)\<lparr>c_children := AList.update (c_name (h1 c)) c (c_children (h1 g))\<rparr>)
      in s\<lparr>objs := h2\<rparr>)"

text \<open>
  \<open>group.remove_command(name)\<close>: detach-child.  The child registered under that name
  leaves the group; the command object itself is not written.
\<close>

definition group_remove_command :: "cid \<Rightarrow> string \<Rightarrow> state \<Rightarrow> state" where
  "group_remove_command g n s =
     s\<lparr>objs := (objs s)(g := (objs s g)\<lparr>c_children := AList.delete n (c_children (objs s g))\<rparr>)\<rparr>"

text \<open>\<open>command.error(group.on_error)\<close>.\<close>

definition command_error :: "cid \<Rightarrow> nat option \<Rightarrow> state \<Rightarrow> state" where
  "command_error c handler s = s\<lparr>objs := (objs s)(c := (objs s c)\<lparr>c_on_error := handler\<rparr>)\<rparr>"

text \<open>
  The original plugin-add: the plugin is recorded as loaded and each of its commands
  that has no parent is registered in the flat top-level registry of its universe.
\<close>

fun register_all :: "(cid \<Rightarrow> command) \<Rightarrow> cid list \<Rightarrow> (string, cid) dict \<Rightarrow> (string, cid) dict" where
  "register_all h [] reg = reg"
| "register_all h (c # cs) reg =
     register_all h cs (if c_parent (h c) = None then AList.update (c_name (h c)) c reg else reg)"

definition original_cog_add :: "cog \<Rightarrow> state \<Rightarrow> state" where
  "original_cog_add cg s =
     s\<lparr>cogs := AList.update (cog_name cg) cg (cogs s),
       bot_commands := register_all (objs s) (cog_commands cg) (bot_commands s),
       tree_commands := register_all (objs s) (cog_app_commands cg) (tree_commands s)\<rparr>"



section \<open>The manager\<close>

text \<open>
  Every method below takes the state and returns the new one.  A raised exception is a
  value: the state is returned as it was when the exception left the method, because
  the mutations made before a \<open>raise\<close> stay.
\<close>

subsection \<open>\<open>__get_subcommand\<close>\<close>

definition get_subcommand :: "cid \<Rightarrow> state \<Rightarrow> sid option \<times> state" where
  "get_subcommand c s =
     (case c_subcommand (objs s c) of
        None \<Rightarrow> (None, s)
      | Some sub \<Rightarrow> (Some sub, s\<lparr>subs := (subs s)(sub := (subs s sub)\<lparr>sub_command := c\<rparr>)\<rparr>))"

subsection \<open>\<open>__get_groups\<close>\<close>

definition get_groups :: "state \<Rightarrow> cid \<Rightarrow> bool \<Rightarrow> error + cid list" where
  "get_groups s c check_command_type =
     (if \<not> check_command_type then
        case walk_commands (recursion_limit s) (objs s) (map snd (tree_commands s)) of
          None \<Rightarrow> Inl RecursionError
        | Some tw \<Rightarrow>
            (case walk_commands (recursion_limit s) (objs s) (map snd (bot_commands s)) of
               None \<Rightarrow> Inl RecursionError
             | Some bw \<Rightarrow>
                 Inr (filter (\<lambda>x. is_app_Group (c_kind (objs s x))) tw
                      @ filter (\<lambda>x. is_commands_Group (c_kind (objs s x)) \<or> is_HybridGroup (c_kind (objs s x))) bw))
      else if is_app_Command (c_kind (objs s c)) \<or> is_app_Group (c_kind (objs s c)) then
        case walk_commands (recursion_limit s) (objs s) (map snd (tree_commands s)) of
          None \<Rightarrow> Inl RecursionError
        | Some tw \<Rightarrow> Inr (filter (\<lambda>x. is_app_Group (c_kind (objs s x))) tw)
      else
        case walk_commands (recursion_limit s) (objs s) (map snd (bot_commands s)) of
          None \<Rightarrow> Inl RecursionError
        | Some bw \<Rightarrow>
            Inr (filter (\<lambda>x. is_commands_Group (c_kind (objs s x)) \<or> is_HybridGroup (c_kind (objs s x))) bw))"

subsection \<open>\<open>__find_group\<close>\<close>

text \<open>\<open>discord.utils.get(groups, qualified_name=name)\<close>: the first element with that attribute.\<close>

fun utils_get :: "state \<Rightarrow> cid list \<Rightarrow> string \<Rightarrow> error + cid option" where
  "utils_get s [] n = Inr None"
| "utils_get s (g # gs) n =
     (case qualified_name (recursion_limit s) (objs s) g of
        None \<Rightarrow> Inl RecursionError
      | Some q \<Rightarrow> if q = n then Inr (Some g) else utils_get s gs n)"

definition find_group :: "state \<Rightarrow> sid \<Rightarrow> error + cid option" where
  "find_group s sub =
     (let name = group_name (subs s sub);
          c = sub_command (subs s sub)
      in case get_groups s c (\<not> check_group_type s) of
           Inl e \<Rightarrow> Inl e
         | Inr groups \<Rightarrow>
             (case utils_get s groups name of
                Inl e \<Rightarrow> Inl e
              | Inr None \<Rightarrow> Inr None
              | Inr (Some g) \<Rightarrow>
                  (let gk = c_kind (objs s g); ck = c_kind (objs s c)
                   in if \<not> (is_app_Group gk \<or> is_commands_Group gk \<or> is_HybridGroup gk)
                        then Inl (TypeError_not_a_group name g)
                      else if is_app_Group gk \<and> \<not> (is_app_Command ck \<or> is_app_Group ck)
                        then Inl (TypeError_cannot_add ck gk)
                      else if is_HybridGroup gk \<and> \<not> (is_HybridCommand ck \<or> is_HybridGroup ck)
                        then Inl (TypeError_cannot_add ck gk)
                      else if is_commands_Group gk \<and> \<not> (is_commands_Command ck \<or> is_commands_Group ck)
                        then Inl (TypeError_cannot_add ck gk)
                      else Inr (Some g))))"

subsection \<open>\<open>__handle_prefix_hybrid_command\<close> and \<open>__handle_app_command\<close>\<close>

datatype action = ADD | REMOVE

definition handle_prefix_hybrid_command ::
  "action \<Rightarrow> sid \<Rightarrow> cid option \<Rightarrow> state \<Rightarrow> error option \<times> state" where
  "handle_prefix_hybrid_command act sub grp s =
     (let c = sub_command (subs s sub) in
      case act of
        ADD \<Rightarrow>
          (if c_parent (objs s c) \<noteq> None then (Some (ValueError_already_subcommand (c_name (objs s c))), s)
           else
             case grp of
               None \<Rightarrow> (Some ValueError_group_required, s)
             | Some g \<Rightarrow>
                 (let s1 = s\<lparr>subs := (subs s)(sub := (subs s sub)\<lparr>sub_group := Some g\<rparr>)\<rparr>;
                      s2 = bot_remove_command (c_name (objs s1 c)) s1;
                      s3 = group_add_command g c s2
                  in (None,
                      if copy_group_error_handler s3 \<and> c_on_error (objs s3 g) \<noteq> None
                      then command_error c (c_on_error (objs s3 g)) s3 else s3)))
      | REMOVE \<Rightarrow>
          (case sub_group (subs s sub) of
             None \<Rightarrow> (None, s)
           | Some g \<Rightarrow>
               (let s1 = group_remove_command g (c_name (objs s c)) s
                in (None, s1\<lparr>subs := (subs s1)(sub := (subs s1 sub)\<lparr>sub_group := None\<rparr>)\<rparr>))))"

definition handle_app_command ::
  "action \<Rightarrow> sid \<Rightarrow> cid option \<Rightarrow> state \<Rightarrow> error option \<times> state" where
  "handle_app_command act sub grp s =
     (let c = sub_command (subs s sub) in
      case act of
        ADD \<Rightarrow>
          (if c_parent (objs s c) \<noteq> None then (Some (ValueError_already_subcommand (c_name (objs s c))), s)
           else
             case grp of
               None \<Rightarrow> (Some ValueError_group_required, s)
             | Some g \<Rightarrow>
                 (let s1 = s\<lparr>subs := (subs s)(sub := (subs s sub)\<lparr>sub_group := Some g\<rparr>)\<rparr>;
                      s2 = tree_remove_command (c_name (objs s1 c)) s1
                  in (None, group_add_command g c s2)))
      | REMOVE \<Rightarrow>
          (case sub_group (subs s sub) of
             None \<Rightarrow>
               (None, s\<lparr>stdout := stdout s @ [''Subcommand is not part of a group. '' @ c_name (objs s c)]\<rparr>)
           | Some g \<Rightarrow>
               (let s1 = group_remove_command g (c_name (objs s c)) s
                in (None, s1\<lparr>subs := (subs s1)(sub := (subs s1 sub)\<lparr>sub_group := None\<rparr>)\<rparr>))))"

subsection \<open>\<open>__handle_commands\<close>: the resolution pass\<close>

text \<open>\<open>del self._not_found[cog_name][subcommand._command.name]\<close>.\<close>

definition del_not_found :: "string \<Rightarrow> string \<Rightarrow> state \<Rightarrow> error option \<times> state" where
  "del_not_found cog_nm n s =
     (let d = dd_touch (not_found s) cog_nm in
      if n \<in> fst ` set (dd_get d cog_nm)
      then (None, s\<lparr>not_found := AList.update cog_nm (AList.delete n (dd_get d cog_nm)) d\<rparr>)
      else (Some (KeyError n), s\<lparr>not_found := d\<rparr>))"

text \<open>The inner loop, over \<open>_commands.copy().values()\<close>.\<close>

fun handle_cog :: "string \<Rightarrow> sid list \<Rightarrow> state \<Rightarrow> error option \<times> state" where
  "handle_cog cog_nm [] s = (None, s)"
| "handle_cog cog_nm (sub # rest) s =
     (case find_group s sub of
        Inl e \<Rightarrow> (Some e, s)
      | Inr None \<Rightarrow> handle_cog cog_nm rest s
      | Inr (Some g) \<Rightarrow>
          (case (if is_app_Command (c_kind (objs s (sub_command (subs s sub))))
                    \<or> is_app_Group (c_kind (objs s (sub_command (subs s sub))))
                 then handle_app_command ADD sub (Some g) s
                 else handle_prefix_hybrid_command ADD sub (Some g) s) of
             (Some e, s1) \<Rightarrow> (Some e, s1)
           | (None, s1) \<Rightarrow>
               (case del_not_found cog_nm (c_name (objs s1 (sub_command (subs s1 sub)))) s1 of
                  (Some e, s2) \<Rightarrow> (Some e, s2)
                | (None, s2) \<Rightarrow> handle_cog cog_nm rest s2)))"

text \<open>
  The outer loop, over \<open>self._not_found.copy().items()\<close>.  The copy is shallow: each
  bucket it yields is the live bucket of that plugin, which nothing has touched before
  the loop reaches it, so it is the bucket of the snapshot.
\<close>

fun handle_cogs :: "(string, (string, sid) dict) dict \<Rightarrow> state \<Rightarrow> error option \<times> state" where
  "handle_cogs [] s = (None, s)"
| "handle_cogs ((cog_nm, cmds) # rest) s =
     (case handle_cog cog_nm (map snd cmds) s of
        (Some e, s1) \<Rightarrow> (Some e, s1)
      | (None, s1) \<Rightarrow>
          (if dd_get (not_found s1) cog_nm = [] then
             (if cog_nm \<in> fst ` set (not_found s1)
              then handle_cogs rest (s1\<lparr>not_found := AList.delete cog_nm (not_found s1)\<rparr>)
              else (Some (KeyError cog_nm), s1))
           else handle_cogs rest s1))"

definition handle_commands :: "state \<Rightarrow> error option \<times> state" where
  "handle_commands s = handle_cogs (not_found s) s"

subsection \<open>\<open>__cog_add\<close> and \<open>__cog_remove\<close>\<close>

fun collect_subcommands :: "string \<Rightarrow> cid list \<Rightarrow> state \<Rightarrow> state" where
  "collect_subcommands cog_nm [] s = s"
| "collect_subcommands cog_nm (c # cs) s =
     (case get_subcommand c s of
        (None, s1) \<Rightarrow> collect_subcommands cog_nm cs s1
      | (Some sub, s1) \<Rightarrow>
          collect_subcommands cog_nm cs
            (s1\<lparr>commands := dd_set (commands s1) cog_nm (c_name (objs s1 c)) sub,
                not_found := dd_set (not_found s1) cog_nm (c_name (objs s1 c)) sub\<rparr>))"

definition cog_add :: "cog \<Rightarrow> state \<Rightarrow> error option \<times> state" where
  "cog_add cg s =
     handle_commands
       (collect_subcommands (cog_name cg) (cog_commands cg @ cog_app_commands cg)
          (original_cog_add cg s))"



subsection \<open>\<open>raise_for_remaining_commands\<close>\<close>

definition report_entry :: "state \<Rightarrow> string \<Rightarrow> string \<Rightarrow> sid \<Rightarrow> error" where
  "report_entry s cog_nm n sub =
     (case get_groups s (sub_command (subs s sub)) True of
        Inl e \<Rightarrow> e
      | Inr groups \<Rightarrow>
          (case those (map (qualified_name (recursion_limit s) (objs s)) groups) of
             None \<Rightarrow> RecursionError
           | Some commands_names \<Rightarrow>
               RuntimeError
                 \<lparr>m_command_group = determine_command_group (c_kind (objs s (sub_command (subs s sub)))),
                  m_group_name = group_name (subs s sub),
                  m_command_type = determine_command_type (c_kind (objs s (sub_command (subs s sub)))),
                  m_name = n,
                  m_cog = cog_nm,
                  m_didyoumean =
                    (case get_close_matches n commands_names of [] \<Rightarrow> None | x # xs \<Rightarrow> Some x)\<rparr>))"

fun report_cog :: "state \<Rightarrow> string \<Rightarrow> (string, sid) dict \<Rightarrow> error option" where
  "report_cog s cog_nm [] = None"
| "report_cog s cog_nm ((n, sub) # rest) =
     (if sub_group (subs s sub) = None then Some (report_entry s cog_nm n sub)
      else report_cog s cog_nm rest)"

fun report_cogs :: "state \<Rightarrow> (string, (string, sid) dict) dict \<Rightarrow> error option" where
  "report_cogs s [] = None"
| "report_cogs s ((cog_nm, subcommands) # rest) =
     (case report_cog s cog_nm subcommands of
        Some e \<Rightarrow> Some e
      | None \<Rightarrow> report_cogs s rest)"

definition raise_for_remaining_commands :: "state \<Rightarrow> error option" where
  "raise_for_remaining_commands s =
     (if not_found s = [] then None else report_cogs s (not_found s))"

section \<open>Constructors\<close>

text \<open>\<open>_Subcommand.__init__\<close>: the attached-group reference starts absent.\<close>

definition Subcommand_init :: "string \<Rightarrow> cid \<Rightarrow> subcommand" where
  "Subcommand_init g c = \<lparr>group_name = g, sub_command = c, sub_group = None\<rparr>"

text \<open>A freshly declared command of the host: no parent, no children, no error handler.\<close>

definition mk_command :: "string \<Rightarrow> ckind \<Rightarrow> sid option \<Rightarrow> command" where
  "mk_command n k a =
     \<lparr>c_name = n, c_kind = k, c_parent = None, c_children = [], c_on_error = None, c_subcommand = a\<rparr>"

text \<open>
  \<open>MultiFilesSubcommandsManager.__init__\<close> on a bot with nothing registered: it prints
  one line, and both registries start empty.
\<close>

definition manager_init :: "(cid \<Rightarrow> command) \<Rightarrow> (sid \<Rightarrow> subcommand) \<Rightarrow> nat \<Rightarrow> bool \<Rightarrow> bool \<Rightarrow> state" where
  "manager_init h sb depth copy chk =
     \<lparr>objs = h, subs = sb, bot_commands = [], tree_commands = [], cogs = [],
      recursion_limit = depth, copy_group_error_handler = copy, check_group_type = chk,
      commands = [], not_found = [],
      stdout =
        [''MultiFilesSubcommandsManager initialized with copy_group_error_handler=''
           @ (if copy then ''True'' else ''False'') @ ''.'']\<rparr>"

section \<open>The repository's example extension\<close>

text \<open>
  \<open>examples/extensions/prefix.py\<close>: plugin \<open>Groups\<close> declares the group \<open>user\<close> (with an
  error handler and the child \<open>help\<close>); \<open>UserInfo\<close> declares \<open>info\<close>, \<open>avatar\<close> and the
  group \<open>utils\<close>, all three annotated \<open>@subcommand("user")\<close>; \<open>Utilities\<close> declares
  \<open>whenjoin\<close>, annotated \<open>@subcommand("user utils")\<close>.  \<open>examples/extensions/slash.py\<close>
  gives the slash group \<open>server\<close> and the slash command \<open>banner\<close>, annotated
  \<open>@subcommand("server")\<close>.  \<open>examples/bot.py\<close> builds the manager with
  \<open>copy_group_error_handler=True, check_group_type=False\<close>.  Two more declarations
  serve as test inputs: a prefix command \<open>status\<close> and a slash command \<open>info\<close>, both
  annotated \<open>@subcommand("server")\<close>.
\<close>

definition ex_objs :: "cid \<Rightarrow> command" where
  "ex_objs = (\<lambda>_. mk_command [] PrefixCommand None)
     (0 := (mk_command ''user'' PrefixGroup None)\<lparr>c_children := [(''help'', 1)], c_on_error := Some 0\<rparr>,
      1 := (mk_command ''help'' PrefixCommand None)\<lparr>c_parent := Some 0\<rparr>,
      2 := mk_command ''info'' PrefixCommand (Some 0),
      3 := mk_command ''avatar'' PrefixCommand (Some 1),
      4 := mk_command ''utils'' PrefixGroup (Some 2),
      5 := mk_command ''whenjoin'' PrefixCommand (Some 3),
      8 := mk_command ''server'' AppGroup None,
      9 := mk_command ''banner'' AppCommand (Some 5),
      10 := mk_command ''status'' PrefixCommand (Some 6),
      11 := mk_command ''info'' AppCommand (Some 7))"

definition ex_subs :: "sid \<Rightarrow> subcommand" where
  "ex_subs = (\<lambda>_. Subcommand_init [] 0)
     (0 := Subcommand_init ''user'' 2,
      1 := Subcommand_init ''user'' 3,
      2 := Subcommand_init ''user'' 4,
      3 := Subcommand_init ''user utils'' 5,
      5 := Subcommand_init ''server'' 9,
      6 := Subcommand_init ''server'' 10,
      7 := Subcommand_init ''server'' 11)"

definition Groups :: cog where
  "Groups = \<lparr>cog_name = ''Groups'', cog_commands = [0, 1], cog_app_commands = []\<rparr>"
definition UserInfo :: cog where
  "UserInfo = \<lparr>cog_name = ''UserInfo'', cog_commands = [2, 3, 4], cog_app_commands = []\<rparr>"
definition Utilities :: cog where
  "Utilities = \<lparr>cog_name = ''Utilities'', cog_commands = [5], cog_app_commands = []\<rparr>"

definition SlashCog :: cog where
  "SlashCog = \<lparr>cog_name = ''SlashCog'', cog_commands = [], cog_app_commands = [8]\<rparr>"
definition Status :: cog where
  "Status = \<lparr>cog_name = ''Status'', cog_commands = [10], cog_app_commands = []\<rparr>"
definition Both :: cog where
  "Both = \<lparr>cog_name = ''Both'', cog_commands = [2], cog_app_commands = [11]\<rparr>"

definition ex_init :: state where
  "ex_init = manager_init ex_objs ex_subs 100 True False"



text \<open>
  States of the examples used below.  The slash group \<open>server\<close> registered, with the flag
  \<open>check_group_type\<close> on (\<open>ex_strict\<close>) and off (\<open>ex_lenient\<close>), and the plugin \<open>Status\<close>
  loaded after it; \<open>Groups\<close> loaded, \<open>UserInfo\<close> added and its declarations collected,
  just before the pass of that load (\<open>ex_before_pass\<close>).
\<close>

definition ex_strict :: state where
  "ex_strict = snd (cog_add SlashCog (manager_init ex_objs ex_subs 100 False True))"
definition ex_lenient :: state where
  "ex_lenient = snd (cog_add SlashCog (manager_init ex_objs ex_subs 100 False False))"

definition ex_before_pass :: state where
  "ex_before_pass =
     collect_subcommands ''UserInfo'' [2, 3, 4] (original_cog_add UserInfo (snd (cog_add Groups ex_init)))"

definition ex_strict_status :: state where
  "ex_strict_status = snd (cog_add Status ex_strict)"

definition ex_lenient_status :: state where
  "ex_lenient_status = snd (cog_add Status ex_lenient)"




section \<open>The loops of the pass, piecewise\<close>



section \<open>What the registries hold\<close>

text \<open>
  Observations on the two registries: the declarations held by any bucket of a registry
  (\<open>values2\<close>), those of \<open>_not_found\<close> (\<open>pending\<close>: the ones a pass visits and the
  report reads), and the property of a Python \<open>dict\<close> of \<open>dict\<close>s that every key occurs
  once.  \<open>store_all\<close> is the loop of \<open>__cog_add\<close> seen from one bucket: every annotated
  command stores its declaration under the command's name.
\<close>

definition values2 :: "('k, ('j, 'v) dict) dict \<Rightarrow> 'v list" where
  "values2 d = concat (map (\<lambda>(k, b). map snd b) d)"

definition pending :: "state \<Rightarrow> sid list" where
  "pending s = values2 (not_found s)"

definition keys_distinct :: "('k, ('j, 'v) dict) dict \<Rightarrow> bool" where
  "keys_distinct d \<longleftrightarrow> distinct (map fst d) \<and> (\<forall>(k, b) \<in> set d. distinct (map fst b))"

fun store_all :: "(cid \<Rightarrow> command) \<Rightarrow> cid list \<Rightarrow> (string, sid) dict \<Rightarrow> (string, sid) dict" where
  "store_all h [] b = b"
| "store_all h (c # cs) b =
     store_all h cs (case c_subcommand (h c) of None \<Rightarrow> b | Some x \<Rightarrow> AList.update (c_name (h c)) x b)"

lemma set_delete_subset: "set (AList.delete k al) \<subseteq> set al"
  by (induction al) auto

lemma set_update_subset: "set (AList.update k v al) \<subseteq> insert (k, v) (set al)"
  by (induction al) auto

lemma values2_mem: "x \<in> set (values2 d) \<longleftrightarrow> (\<exists>k b. (k, b) \<in> set d \<and> x \<in> snd ` set b)"
  by (auto simp: values2_def)

lemma dd_get_mem: "dd_get d k = [] \<or> (k, dd_get d k) \<in> set d"
  by (auto simp: dd_get_def split: option.splits dest: map_of_SomeD)

lemma values2_dd_get: "x \<in> snd ` set (dd_get d k) \<Longrightarrow> x \<in> set (values2 d)"
  using dd_get_mem[of d k] by (auto simp: values2_mem)

lemma values2_iff:
  "distinct (map fst d) \<Longrightarrow> x \<in> set (values2 d) \<longleftrightarrow> (\<exists>k. x \<in> snd ` set (dd_get d k))"
  by (auto simp: values2_mem dd_get_def split: option.splits dest: map_of_SomeD)

lemma dd_get_dd_set:
  "dd_get (dd_set d k j v) k' = (if k' = k then AList.update j v (dd_get d k) else dd_get d k')"
  by (simp add: dd_get_def dd_set_def update_conv')

lemma keys_distinct_dd_set: "keys_distinct d \<Longrightarrow> keys_distinct (dd_set d k j v)"
proof -
  assume a: "keys_distinct d"
  have b: "distinct (map fst (dd_get d k))"
    using a dd_get_mem[of d k] by (auto simp: keys_distinct_def)
  have "\<And>k' b'. (k', b') \<in> set (AList.update k (AList.update j v (dd_get d k)) d) \<Longrightarrow> distinct (map fst b')"
    using set_update_subset[of k "AList.update j v (dd_get d k)" d] a b
    by (auto simp: keys_distinct_def distinct_update)
  then show ?thesis using a by (auto simp: keys_distinct_def dd_set_def distinct_update)
qed

section \<open>Collecting the declarations of a plugin\<close>

lemma get_subcommand_frame:
  "objs (snd (get_subcommand c s)) = objs s"
  "commands (snd (get_subcommand c s)) = commands s"
  "not_found (snd (get_subcommand c s)) = not_found s"
  "fst (get_subcommand c s) = c_subcommand (objs s c)"
  "sub_group (subs (snd (get_subcommand c s)) x) = sub_group (subs s x)"
  by (simp_all add: get_subcommand_def split: option.splits)

lemma collect_objs: "objs (collect_subcommands cg cs s) = objs s"
proof (induction cs arbitrary: s)
  case Nil
  then show ?case by simp
next
  case (Cons c cs)
  obtain r s1 where g: "get_subcommand c s = (r, s1)" by (cases "get_subcommand c s")
  have o: "objs s1 = objs s" using get_subcommand_frame(1)[of c s] g by simp
  show ?case using g o Cons.IH by (cases r) simp_all
qed

lemma collect_sub_group: "sub_group (subs (collect_subcommands cg cs s) x) = sub_group (subs s x)"
proof (induction cs arbitrary: s)
  case Nil
  then show ?case by simp
next
  case (Cons c cs)
  obtain r s1 where g: "get_subcommand c s = (r, s1)" by (cases "get_subcommand c s")
  have o: "sub_group (subs s1 x) = sub_group (subs s x)" using get_subcommand_frame(5)[of c s x] g by simp
  show ?case using g o Cons.IH by (cases r) simp_all
qed

lemma collect_buckets:
  "dd_get (commands (collect_subcommands cg cs s)) k =
     (if k = cg then store_all (objs s) cs (dd_get (commands s) cg) else dd_get (commands s) k)
   \<and> dd_get (not_found (collect_subcommands cg cs s)) k =
     (if k = cg then store_all (objs s) cs (dd_get (not_found s) cg) else dd_get (not_found s) k)"
proof (induction cs arbitrary: s)
  case Nil
  then show ?case by simp
next
  case (Cons c cs)
  obtain r s1 where g: "get_subcommand c s = (r, s1)" by (cases "get_subcommand c s")
  have o: "objs s1 = objs s" "commands s1 = commands s" "not_found s1 = not_found s"
    "r = c_subcommand (objs s c)"
    using get_subcommand_frame[of c s] g by simp_all
  show ?case
  proof (cases r)
    case None
    then show ?thesis using g o Cons.IH[of s1] by simp
  next
    case (Some x)
    let ?s2 = "s1\<lparr>commands := dd_set (commands s1) cg (c_name (objs s1 c)) x,
                not_found := dd_set (not_found s1) cg (c_name (objs s1 c)) x\<rparr>"
    have e: "collect_subcommands cg (c # cs) s = collect_subcommands cg cs ?s2"
      using g Some by simp
    have a: "c_subcommand (objs s c) = Some x" using o(4) Some by simp
    show ?thesis unfolding e using Cons.IH[of ?s2]
      by (simp add: o(1,2,3) a dd_get_dd_set)
  qed
qed

lemma collect_keys_distinct:
  "keys_distinct (commands s) \<Longrightarrow> keys_distinct (not_found s) \<Longrightarrow>
   keys_distinct (commands (collect_subcommands cg cs s))
   \<and> keys_distinct (not_found (collect_subcommands cg cs s))"
proof (induction cs arbitrary: s)
  case Nil
  then show ?case by simp
next
  case (Cons c cs)
  obtain r s1 where g: "get_subcommand c s = (r, s1)" by (cases "get_subcommand c s")
  have o: "commands s1 = commands s" "not_found s1 = not_found s"
    using get_subcommand_frame[of c s] g by simp_all
  show ?case
  proof (cases r)
    case None
    then show ?thesis using g o Cons.IH[of s1] Cons.prems by simp
  next
    case (Some x)
    let ?s2 = "s1\<lparr>commands := dd_set (commands s1) cg (c_name (objs s1 c)) x,
                not_found := dd_set (not_found s1) cg (c_name (objs s1 c)) x\<rparr>"
    have e: "collect_subcommands cg (c # cs) s = collect_subcommands cg cs ?s2"
      using g Some by simp
    show ?thesis unfolding e
      by (rule Cons.IH) (simp_all add: o keys_distinct_dd_set Cons.prems)
  qed
qed

lemma collect_distinct_cogs:
  "distinct (map fst (not_found s)) \<Longrightarrow> distinct (map fst (not_found (collect_subcommands cg cs s)))"
proof (induction cs arbitrary: s)
  case Nil
  then show ?case by simp
next
  case (Cons c cs)
  obtain r s1 where g: "get_subcommand c s = (r, s1)" by (cases "get_subcommand c s")
  have o: "not_found s1 = not_found s"
    using get_subcommand_frame[of c s] g by simp_all
  show ?case
  proof (cases r)
    case None
    then show ?thesis using g o Cons.IH[of s1] Cons.prems by simp
  next
    case (Some x)
    let ?s2 = "s1\<lparr>commands := dd_set (commands s1) cg (c_name (objs s1 c)) x,
                not_found := dd_set (not_found s1) cg (c_name (objs s1 c)) x\<rparr>"
    have e: "collect_subcommands cg (c # cs) s = collect_subcommands cg cs ?s2"
      using g Some by simp
    show ?thesis unfolding e
      by (rule Cons.IH) (simp add: o dd_set_def distinct_update Cons.prems)
  qed
qed

lemma store_all_append: "store_all h (xs @ ys) b = store_all h ys (store_all h xs b)"
  by (induction xs arbitrary: b) simp_all

lemma store_all_distinct: "distinct (map fst b) \<Longrightarrow> distinct (map fst (store_all h cs b))"
  by (induction cs arbitrary: b) (simp_all add: distinct_update split: option.splits)

lemma store_all_other:
  "\<forall>c \<in> set cs. c_subcommand (h c) \<noteq> None \<longrightarrow> c_name (h c) \<noteq> n \<Longrightarrow>
   map_of (store_all h cs b) n = map_of b n"
  by (induction cs arbitrary: b) (auto simp: update_conv' split: option.splits)

lemma store_all_entries:
  "(k, v) \<in> set (store_all h cs b) \<Longrightarrow>
   (k, v) \<in> set b \<or> (\<exists>c \<in> set cs. c_subcommand (h c) = Some v \<and> c_name (h c) = k)"
proof (induction cs arbitrary: b)
  case Nil
  then show ?case by simp
next
  case (Cons c cs)
  show ?case
  proof (cases "c_subcommand (h c)")
    case None
    then show ?thesis using Cons.IH[of b] Cons.prems by auto
  next
    case (Some x)
    then have "(k, v) \<in> set (store_all h cs (AList.update (c_name (h c)) x b))"
      using Cons.prems by simp
    from Cons.IH[OF this] show ?thesis
      using set_update_subset[of "c_name (h c)" x b] Some by auto
  qed
qed

section \<open>What a pass and the report read\<close>

lemma values2_touch: "set (values2 (dd_touch d k)) = set (values2 d)"
  by (auto simp: values2_def dd_touch_def split: option.splits)

lemma values2_mono:
  assumes "\<And>k b. (k, b) \<in> set d \<Longrightarrow> \<exists>b'. (k, b') \<in> set d' \<and> set b \<subseteq> set b'"
  shows "set (values2 d) \<subseteq> set (values2 d')"
proof
  fix x
  assume "x \<in> set (values2 d)"
  then obtain k b where kb: "(k, b) \<in> set d" "x \<in> snd ` set b" unfolding values2_mem by blast
  from assms[OF kb(1)] obtain b' where b': "(k, b') \<in> set d'" "set b \<subseteq> set b'" by blast
  have "x \<in> snd ` set b'" using kb(2) b'(2) by blast
  then show "x \<in> set (values2 d')" unfolding values2_mem using b'(1) by blast
qed

lemma values2_delete: "set (values2 (AList.delete k d)) \<subseteq> set (values2 d)"
proof (rule values2_mono)
  fix j b
  assume "(j, b) \<in> set (AList.delete k d)"
  then have "(j, b) \<in> set d" using set_delete_subset[of k d] by (rule set_mp[rotated])
  then show "\<exists>b'. (j, b') \<in> set d \<and> set b \<subseteq> set b'" by blast
qed

lemma values2_update_shrink:
  assumes "set b \<subseteq> set (dd_get d k)"
  shows "set (values2 (AList.update k b d)) \<subseteq> set (values2 d)"
proof
  fix x
  assume "x \<in> set (values2 (AList.update k b d))"
  then obtain j c where jc: "(j, c) \<in> set (AList.update k b d)" "x \<in> snd ` set c"
    unfolding values2_mem by blast
  have "(j, c) = (k, b) \<or> (j, c) \<in> set d"
    using jc(1) set_update_subset[of k b d] by blast
  then show "x \<in> set (values2 d)"
  proof
    assume "(j, c) = (k, b)"
    then have "x \<in> snd ` set (dd_get d k)" using jc(2) assms by blast
    then show ?thesis by (rule values2_dd_get)
  next
    assume "(j, c) \<in> set d"
    then show ?thesis unfolding values2_mem using jc(2) by blast
  qed
qed

lemma add_frame:
  "not_found (snd (handle_prefix_hybrid_command ADD sub grp s)) = not_found s"
  "not_found (snd (handle_app_command ADD sub grp s)) = not_found s"
  "x \<noteq> sub \<Longrightarrow> subs (snd (handle_prefix_hybrid_command ADD sub grp s)) x = subs s x"
  "x \<noteq> sub \<Longrightarrow> subs (snd (handle_app_command ADD sub grp s)) x = subs s x"
  by (simp_all add: handle_prefix_hybrid_command_def handle_app_command_def Let_def
      bot_remove_command_def tree_remove_command_def group_add_command_def command_error_def
      split: option.splits)

lemma del_not_found_frame:
  "subs (snd (del_not_found cg n s)) = subs s"
  "set (pending (snd (del_not_found cg n s))) \<subseteq> set (pending s)"
proof -
  show "subs (snd (del_not_found cg n s)) = subs s"
    by (simp add: del_not_found_def Let_def)
  have "set (values2 (AList.update cg (AList.delete n (dd_get (dd_touch (not_found s) cg) cg))
            (dd_touch (not_found s) cg))) \<subseteq> set (values2 (dd_touch (not_found s) cg))"
    by (rule values2_update_shrink) (rule set_delete_subset)
  then show "set (pending (snd (del_not_found cg n s))) \<subseteq> set (pending s)"
    by (simp add: del_not_found_def Let_def pending_def values2_touch)
qed

lemma handle_cog_frame:
  "set (pending (snd (handle_cog cg xs s))) \<subseteq> set (pending s)
   \<and> (\<forall>x. x \<notin> set xs \<longrightarrow> subs (snd (handle_cog cg xs s)) x = subs s x)"
proof (induction xs arbitrary: s)
  case Nil
  then show ?case by simp
next
  case (Cons sub rest)
  show ?case
  proof (cases "find_group s sub")
    case (Inl e)
    then show ?thesis by simp
  next
    case (Inr og)
    show ?thesis
    proof (cases og)
      case None
      then show ?thesis using Inr Cons.IH[of s] by simp
    next
      case (Some g)
      define add where "add =
        (if is_app_Command (c_kind (objs s (sub_command (subs s sub))))
            \<or> is_app_Group (c_kind (objs s (sub_command (subs s sub))))
         then handle_app_command ADD sub (Some g) s
         else handle_prefix_hybrid_command ADD sub (Some g) s)"
      obtain r1 s1 where a: "add = (r1, s1)" by (cases add)
      have s1: "s1 = snd add" using a by simp
      have f1: "pending s1 = pending s"
        unfolding s1 add_def pending_def by (simp add: add_frame)
      have f2: "\<forall>x. x \<notin> set (sub # rest) \<longrightarrow> subs s1 x = subs s x"
        unfolding s1 add_def by (simp add: add_frame)
      have step: "handle_cog cg (sub # rest) s =
          (case r1 of Some e \<Rightarrow> (Some e, s1)
           | None \<Rightarrow> (case del_not_found cg (c_name (objs s1 (sub_command (subs s1 sub)))) s1 of
                        (Some e, s2) \<Rightarrow> (Some e, s2)
                      | (None, s2) \<Rightarrow> handle_cog cg rest s2))"
        using Inr Some a unfolding add_def by (simp del: is_app_Command.simps is_app_Group.simps)
      show ?thesis
      proof (cases r1)
        case (Some e)
        then show ?thesis unfolding step using f1 f2 by simp
      next
        case None
        obtain r2 s2 where d: "del_not_found cg (c_name (objs s1 (sub_command (subs s1 sub)))) s1 = (r2, s2)"
          by (cases "del_not_found cg (c_name (objs s1 (sub_command (subs s1 sub)))) s1")
        have s2: "s2 = snd (del_not_found cg (c_name (objs s1 (sub_command (subs s1 sub)))) s1)"
          using d by simp
        have g1: "set (pending s2) \<subseteq> set (pending s)"
          unfolding s2 using del_not_found_frame(2)[of cg _ s1] f1 by simp
        have g2: "\<forall>x. x \<notin> set (sub # rest) \<longrightarrow> subs s2 x = subs s x"
          unfolding s2 using f2 by (simp add: del_not_found_frame(1))
        show ?thesis
        proof (cases r2)
          case (Some e)
          then show ?thesis unfolding step using None d g1 g2 by simp
        next
          case N2: None
          have "handle_cog cg (sub # rest) s = handle_cog cg rest s2"
            unfolding step using None N2 d by simp
          then show ?thesis using Cons.IH[of s2] g1 g2 by auto
        qed
      qed
    qed
  qed
qed

lemma handle_cogs_frame:
  "set (pending (snd (handle_cogs nf s))) \<subseteq> set (pending s)
   \<and> (\<forall>x. x \<notin> set (values2 nf) \<longrightarrow> subs (snd (handle_cogs nf s)) x = subs s x)"
proof (induction nf arbitrary: s)
  case Nil
  then show ?case by simp
next
  case (Cons entry rest)
  obtain cg cmds where e: "entry = (cg, cmds)" by (cases entry)
  obtain r1 s1 where h: "handle_cog cg (map snd cmds) s = (r1, s1)"
    by (cases "handle_cog cg (map snd cmds) s")
  have s1: "s1 = snd (handle_cog cg (map snd cmds) s)" using h by simp
  have f1: "set (pending s1) \<subseteq> set (pending s)"
    unfolding s1 using handle_cog_frame[of cg "map snd cmds" s] by simp
  have v: "set (values2 (entry # rest)) = set (map snd cmds) \<union> set (values2 rest)"
    unfolding e by (simp add: values2_def)
  have f2: "\<forall>x. x \<notin> set (values2 (entry # rest)) \<longrightarrow> subs s1 x = subs s x"
    unfolding s1 v using handle_cog_frame[of cg "map snd cmds" s] by simp
  show ?case
  proof (cases r1)
    case (Some err)
    then show ?thesis using e h f1 f2 by simp
  next
    case None
    let ?s2 = "s1\<lparr>not_found := AList.delete cg (not_found s1)\<rparr>"
    have p2: "set (pending ?s2) \<subseteq> set (pending s)"
      using values2_delete[of cg "not_found s1"] f1 by (simp add: pending_def)
    have q2: "\<forall>x. x \<notin> set (values2 (entry # rest)) \<longrightarrow> subs ?s2 x = subs s x"
      using f2 by simp
    have r: "\<forall>x. x \<notin> set (values2 (entry # rest)) \<longrightarrow> x \<notin> set (values2 rest)"
      unfolding v by simp
    consider (a) "handle_cogs (entry # rest) s = handle_cogs rest ?s2"
      | (b) "handle_cogs (entry # rest) s = (Some (KeyError cg), s1)"
      | (c) "handle_cogs (entry # rest) s = handle_cogs rest s1"
      using e h None
      by (cases "dd_get (not_found s1) cg = []"; cases "cg \<in> fst ` set (not_found s1)"; simp)
    then show ?thesis
    proof cases
      case a
      show ?thesis unfolding a using Cons.IH[of ?s2] p2 q2 r by auto
    next
      case b
      show ?thesis unfolding b using f1 f2 by simp
    next
      case c
      show ?thesis unfolding c using Cons.IH[of s1] f1 f2 r by auto
    qed
  qed
qed

lemma handle_commands_frame:
  "set (pending (snd (handle_commands s))) \<subseteq> set (pending s)
   \<and> (\<forall>x. x \<notin> set (pending s) \<longrightarrow> subs (snd (handle_commands s)) x = subs s x)"
  unfolding handle_commands_def using handle_cogs_frame[of "not_found s" s]
  by (simp add: pending_def)

lemma report_entry_cong:
  "sub \<noteq> x \<Longrightarrow> report_entry (s\<lparr>subs := (subs s)(x := v)\<rparr>) cg n sub = report_entry s cg n sub"
proof -
  have g: "\<And>c b. get_groups (s\<lparr>subs := (subs s)(x := v)\<rparr>) c b = get_groups s c b"
    by (simp add: get_groups_def split: option.splits)
  assume "sub \<noteq> x"
  then show ?thesis
    by (simp add: report_entry_def g split: sum.splits option.splits)
qed

lemma report_cog_cong:
  "x \<notin> snd ` set b \<Longrightarrow> report_cog (s\<lparr>subs := (subs s)(x := v)\<rparr>) cg b = report_cog s cg b"
  by (induction b) (auto simp: report_entry_cong)

lemma report_cogs_cong:
  "x \<notin> set (values2 nf) \<Longrightarrow> report_cogs (s\<lparr>subs := (subs s)(x := v)\<rparr>) nf = report_cogs s nf"
proof (induction nf)
  case Nil
  then show ?case by simp
next
  case (Cons entry rest)
  obtain cg b where e: "entry = (cg, b)" by (cases entry)
  have a: "x \<notin> snd ` set b" "x \<notin> set (values2 rest)"
    using Cons.prems unfolding e by (simp_all add: values2_def)
  show ?case unfolding e report_cogs.simps Cons.IH[OF a(2)] report_cog_cong[OF a(1)] ..
qed

lemma report_cong:
  "x \<notin> set (pending s) \<Longrightarrow>
   raise_for_remaining_commands (s\<lparr>subs := (subs s)(x := v)\<rparr>) = raise_for_remaining_commands s"
  by (simp add: raise_for_remaining_commands_def pending_def report_cogs_cong)

section \<open>C9: a resolution conflict aborts the pass\<close>




section \<open>C1: the report\<close>

lemma report_cog_skip:
  "\<forall>(n, sb) \<in> set before. sub_group (subs s sb) \<noteq> None \<Longrightarrow>
   report_cog s cg (before @ rest) = report_cog s cg rest"
  by (induction before) auto

lemma report_cog_all_attached:
  "\<forall>(n, sb) \<in> set b. sub_group (subs s sb) \<noteq> None \<Longrightarrow> report_cog s cg b = None"
  by (induction b) auto

lemma report_cogs_skip:
  "\<forall>(cg, b) \<in> set pre. \<forall>(n, sb) \<in> set b. sub_group (subs s sb) \<noteq> None \<Longrightarrow>
   report_cogs s (pre @ rest) = report_cogs s rest"
  by (induction pre) (auto simp: report_cog_all_attached)

text \<open>The example with \<open>UserInfo\<close> and \<open>Utilities\<close> loaded and \<open>Groups\<close> never loaded.\<close>

definition ex_unresolved :: state where
  "ex_unresolved = snd (cog_add Utilities (snd (cog_add UserInfo ex_init)))"

text \<open>
  C1, as the code has it.  The report raises inside its loops, at the first entry of the
  still-unresolved registry (in iteration order) that has no attached group.  It is one
  \<open>RuntimeError\<close> with one message, which names the plugin, the command (by the key it is
  registered under) and the target group of that entry alone; the entries after it are
  not mentioned.  (The enumeration of the host's groups is assumed to return.)
\<close>

theorem report_names_first_unresolved:
  assumes "not_found s = pre @ (cg, before @ (n, sub) # later) # rest"
    and "\<forall>(cg', b) \<in> set pre. \<forall>(n', sb) \<in> set b. sub_group (subs s sb) \<noteq> None"
    and "\<forall>(n', sb) \<in> set before. sub_group (subs s sb) \<noteq> None"
    and "sub_group (subs s sub) = None"
    and "get_groups s (sub_command (subs s sub)) True = Inr gs"
    and "those (map (qualified_name (recursion_limit s) (objs s)) gs) = Some names"
  shows "raise_for_remaining_commands s =
     Some (RuntimeError
       \<lparr>m_command_group = determine_command_group (c_kind (objs s (sub_command (subs s sub)))),
        m_group_name = group_name (subs s sub),
        m_command_type = determine_command_type (c_kind (objs s (sub_command (subs s sub)))),
        m_name = n,
        m_cog = cg,
        m_didyoumean = (case get_close_matches n names of [] \<Rightarrow> None | x # xs \<Rightarrow> Some x)\<rparr>)"
proof -
  have "raise_for_remaining_commands s = report_cogs s ((cg, before @ (n, sub) # later) # rest)"
    using assms(1,2) by (simp add: raise_for_remaining_commands_def report_cogs_skip)
  also have "\<dots> = Some (report_entry s cg n sub)"
    using assms(3,4) by (simp add: report_cog_skip)
  finally show ?thesis using assms(5,6) by (simp add: report_entry_def)
qed

theorem report_names_first_unresolved_witness:
  "raise_for_remaining_commands ex_unresolved =
     Some (RuntimeError
       \<lparr>m_command_group = ''Command group'', m_group_name = ''user'',
        m_command_type = ''command'', m_name = ''info'', m_cog = ''UserInfo'',
        m_didyoumean = Some ''utils''\<rparr>)"
proof -
  have a: "not_found ex_unresolved =
      [] @ (''UserInfo'', [] @ (''info'', 0) # [(''avatar'', 1), (''utils'', 2)]) # [(''Utilities'', [(''whenjoin'', 3)])]"
    by code_simp
  have b: "sub_group (subs ex_unresolved 0) = None" by code_simp
  have c: "get_groups ex_unresolved (sub_command (subs ex_unresolved 0)) True = Inr [4]" by code_simp
  have d: "those (map (qualified_name (recursion_limit ex_unresolved) (objs ex_unresolved)) [4]) = Some [''utils'']"
    by code_simp
  have e: "determine_command_group (c_kind (objs ex_unresolved (sub_command (subs ex_unresolved 0)))) = ''Command group''"
    by code_simp
  have f: "determine_command_type (c_kind (objs ex_unresolved (sub_command (subs ex_unresolved 0)))) = ''command''"
    by code_simp
  have g: "group_name (subs ex_unresolved 0) = ''user''" by code_simp
  have h: "get_close_matches ''info'' [''utils''] = [''utils'']" by code_simp
  show ?thesis
    using report_names_first_unresolved [OF a _ _ b c d]
    by (simp del: determine_command_group.simps determine_command_type.simps add: e f g h)
qed

text \<open>
  The claim as stated fails: with four unresolved declarations the error carries the
  message of the first one only.
\<close>

theorem report_is_not_aggregate_counterexample:
  "not_found ex_unresolved =
     [(''UserInfo'', [(''info'', 0), (''avatar'', 1), (''utils'', 2)]),
      (''Utilities'', [(''whenjoin'', 3)])] \<and>
   sub_group (subs ex_unresolved 0) = None \<and> sub_group (subs ex_unresolved 1) = None \<and>
   sub_group (subs ex_unresolved 2) = None \<and> sub_group (subs ex_unresolved 3) = None \<and>
   raise_for_remaining_commands ex_unresolved =
     Some (RuntimeError
       \<lparr>m_command_group = ''Command group'', m_group_name = ''user'',
        m_command_type = ''command'', m_name = ''info'', m_cog = ''UserInfo'',
        m_didyoumean = Some ''utils''\<rparr>)"
  by code_simp

section \<open>C3: the flag \<open>check_group_type\<close>\<close>

lemma utils_get_mem: "utils_get s gs n = Inr (Some g) \<Longrightarrow> g \<in> set gs"
  by (induction gs) (auto split: option.splits if_splits)

text \<open>
  C3, as the code has it.  \<open>__find_group\<close> passes \<open>check_command_type = not
  self._check_group_type\<close>, so the flag works the other way round.  Let \<open>tw\<close> and \<open>bw\<close> be
  what the host enumerates in the command tree and in the bot.  With the flag off (the
  default) the pool of the search is that of the declaration's universe only: the slash
  groups of \<open>tw\<close> for a slash declaration, the prefix and hybrid groups of \<open>bw\<close> for any
  other.  With the flag on the pool is the slash groups of \<open>tw\<close> followed by the prefix
  and hybrid groups of \<open>bw\<close>, whatever the declaration.  The search returns the first
  group of the pool with the target's qualified name: when there is none the declaration
  stays pending, so a same-named group outside the pool is never matched; when there
  is one, it is the result if its class accepts the command and a \<open>TypeError\<close> otherwise.
\<close>

theorem search_pool_follows_flag:
  assumes "walk_commands (recursion_limit s) (objs s) (map snd (tree_commands s)) = Some tw"
    and "walk_commands (recursion_limit s) (objs s) (map snd (bot_commands s)) = Some bw"
    and "c = sub_command (subs s sub)"
    and "pool =
      (if check_group_type s
       then filter (\<lambda>x. c_kind (objs s x) = AppGroup) tw
            @ filter (\<lambda>x. c_kind (objs s x) \<in> {PrefixGroup, HybridGroup}) bw
       else if c_kind (objs s c) \<in> {AppCommand, AppGroup}
            then filter (\<lambda>x. c_kind (objs s x) = AppGroup) tw
            else filter (\<lambda>x. c_kind (objs s x) \<in> {PrefixGroup, HybridGroup}) bw)"
  shows "get_groups s c (\<not> check_group_type s) = Inr pool
     \<and> (utils_get s pool (group_name (subs s sub)) = Inr None \<longrightarrow> find_group s sub = Inr None)
     \<and> (utils_get s pool (group_name (subs s sub)) = Inr (Some g) \<longrightarrow>
          find_group s sub =
            (if (c_kind (objs s g) = AppGroup \<and> c_kind (objs s c) \<notin> {AppCommand, AppGroup})
                \<or> (c_kind (objs s g) = HybridGroup \<and> c_kind (objs s c) \<notin> {HybridCommand, HybridGroup})
                \<or> (c_kind (objs s g) \<in> {PrefixGroup, HybridGroup} \<and> c_kind (objs s c) \<in> {AppCommand, AppGroup})
             then Inl (TypeError_cannot_add (c_kind (objs s c)) (c_kind (objs s g)))
             else Inr (Some g)))"
proof -
  have p: "get_groups s c (\<not> check_group_type s) = Inr pool"
    using assms by (auto simp: get_groups_def)
  have k: "utils_get s pool (group_name (subs s sub)) = Inr (Some g) \<Longrightarrow>
      c_kind (objs s g) \<in> {AppGroup, PrefixGroup, HybridGroup}"
    using utils_get_mem[of s pool "group_name (subs s sub)" g] assms(4)
    by (auto split: if_splits)
  show ?thesis
  proof (intro conjI impI)
    show "get_groups s c (\<not> check_group_type s) = Inr pool" by (rule p)
  next
    assume "utils_get s pool (group_name (subs s sub)) = Inr None"
    then show "find_group s sub = Inr None"
      using p assms(3) by (simp add: find_group_def Let_def)
  next
    assume u: "utils_get s pool (group_name (subs s sub)) = Inr (Some g)"
    from k[OF u] show "find_group s sub =
            (if (c_kind (objs s g) = AppGroup \<and> c_kind (objs s c) \<notin> {AppCommand, AppGroup})
                \<or> (c_kind (objs s g) = HybridGroup \<and> c_kind (objs s c) \<notin> {HybridCommand, HybridGroup})
                \<or> (c_kind (objs s g) \<in> {PrefixGroup, HybridGroup} \<and> c_kind (objs s c) \<in> {AppCommand, AppGroup})
             then Inl (TypeError_cannot_add (c_kind (objs s c)) (c_kind (objs s g)))
             else Inr (Some g))"
      using p u assms(3)
      by (cases "c_kind (objs s c)") (auto simp: find_group_def Let_def)
  qed
qed

theorem search_pool_follows_flag_witness:
  "get_groups ex_strict_status 10 (\<not> check_group_type ex_strict_status) = Inr [8]
   \<and> find_group ex_strict_status 6 = Inl (TypeError_cannot_add PrefixCommand AppGroup)
   \<and> get_groups ex_lenient_status 10 (\<not> check_group_type ex_lenient_status) = Inr []
   \<and> find_group ex_lenient_status 6 = Inr None"
proof -
  have tw1: "walk_commands (recursion_limit ex_strict_status) (objs ex_strict_status)
      (map snd (tree_commands ex_strict_status)) = Some [8]" by code_simp
  have bw1: "walk_commands (recursion_limit ex_strict_status) (objs ex_strict_status)
      (map snd (bot_commands ex_strict_status)) = Some [10]" by code_simp
  have c1: "10 = sub_command (subs ex_strict_status 6)" by code_simp
  have p1: "[8] =
      (if check_group_type ex_strict_status
       then filter (\<lambda>x. c_kind (objs ex_strict_status x) = AppGroup) [8]
            @ filter (\<lambda>x. c_kind (objs ex_strict_status x) \<in> {PrefixGroup, HybridGroup}) [10]
       else if c_kind (objs ex_strict_status 10) \<in> {AppCommand, AppGroup}
            then filter (\<lambda>x. c_kind (objs ex_strict_status x) = AppGroup) [8]
            else filter (\<lambda>x. c_kind (objs ex_strict_status x) \<in> {PrefixGroup, HybridGroup}) [10])"
    by code_simp
  have u1: "utils_get ex_strict_status [8] (group_name (subs ex_strict_status 6)) = Inr (Some 8)"
    by code_simp
  have k1: "c_kind (objs ex_strict_status 8) = AppGroup" "c_kind (objs ex_strict_status 10) = PrefixCommand"
    by code_simp+
  have tw2: "walk_commands (recursion_limit ex_lenient_status) (objs ex_lenient_status)
      (map snd (tree_commands ex_lenient_status)) = Some [8]" by code_simp
  have bw2: "walk_commands (recursion_limit ex_lenient_status) (objs ex_lenient_status)
      (map snd (bot_commands ex_lenient_status)) = Some [10]" by code_simp
  have c2: "10 = sub_command (subs ex_lenient_status 6)" by code_simp
  have p2: "[] =
      (if check_group_type ex_lenient_status
       then filter (\<lambda>x. c_kind (objs ex_lenient_status x) = AppGroup) [8]
            @ filter (\<lambda>x. c_kind (objs ex_lenient_status x) \<in> {PrefixGroup, HybridGroup}) [10]
       else if c_kind (objs ex_lenient_status 10) \<in> {AppCommand, AppGroup}
            then filter (\<lambda>x. c_kind (objs ex_lenient_status x) = AppGroup) [8]
            else filter (\<lambda>x. c_kind (objs ex_lenient_status x) \<in> {PrefixGroup, HybridGroup}) [10])"
    by code_simp
  have u2: "utils_get ex_lenient_status [] (group_name (subs ex_lenient_status 6)) = Inr None"
    by simp
  show ?thesis
    using search_pool_follows_flag [OF tw1 bw1 c1 p1, of 8] u1 k1
      search_pool_follows_flag [OF tw2 bw2 c2 p2, of 8] u2
    by simp
qed

text \<open>
  The claim as stated fails: with the flag on, the pool of the prefix command \<open>status\<close>
  holds the slash group \<open>server\<close>, the search matches it, and loading the plugin raises
  \<open>TypeError\<close>.
\<close>

theorem strict_flag_matches_other_universe_counterexample:
  "check_group_type ex_strict_status
   \<and> c_kind (objs ex_strict_status (sub_command (subs ex_strict_status 6))) = PrefixCommand
   \<and> get_groups ex_strict_status (sub_command (subs ex_strict_status 6))
        (\<not> check_group_type ex_strict_status) = Inr [8]
   \<and> c_kind (objs ex_strict_status 8) = AppGroup
   \<and> find_group ex_strict_status 6 = Inl (TypeError_cannot_add PrefixCommand AppGroup)
   \<and> fst (cog_add Status ex_strict) = Some (TypeError_cannot_add PrefixCommand AppGroup)"
  by code_simp


section \<open>C7: two passes in succession\<close>

text \<open>
  The plugins of \<open>examples/extensions/prefix.py\<close>, loaded in the order of its \<open>setup\<close>:
  \<open>Groups\<close>, \<open>Utilities\<close>, \<open>UserInfo\<close>.
\<close>

definition ex_loaded :: state where
  "ex_loaded = snd (cog_add UserInfo (snd (cog_add Utilities (snd (cog_add Groups ex_init)))))"

text \<open>
  C7 at this input.  The three loads raise nothing.  The pass of the last load reaches
  \<open>whenjoin\<close> (target \<open>user utils\<close>) before it attaches the group \<open>utils\<close> under
  \<open>user\<close>, so \<open>whenjoin\<close> stays unresolved and a report at this point raises, although
  the group \<open>user utils\<close> now exists.  A second pass, with nothing changed in between,
  attaches \<open>whenjoin\<close>: it removes it from the flat registry and from the unresolved
  registry.  The pass is a single sweep and is not idempotent.
\<close>

theorem second_pass_attaches_more:
  "fst (cog_add Groups ex_init) = None
   \<and> fst (cog_add Utilities (snd (cog_add Groups ex_init))) = None
   \<and> fst (cog_add UserInfo (snd (cog_add Utilities (snd (cog_add Groups ex_init))))) = None
   \<and> not_found ex_loaded = [(''Utilities'', [(''whenjoin'', 3)])]
   \<and> sub_group (subs ex_loaded 3) = None
   \<and> raise_for_remaining_commands ex_loaded =
        Some (RuntimeError
          \<lparr>m_command_group = ''Command group'', m_group_name = ''user utils'',
           m_command_type = ''command'', m_name = ''whenjoin'', m_cog = ''Utilities'',
           m_didyoumean = Some ''user utils''\<rparr>)
   \<and> fst (handle_commands ex_loaded) = None
   \<and> not_found (snd (handle_commands ex_loaded)) = []
   \<and> sub_group (subs (snd (handle_commands ex_loaded)) 3) = Some 4
   \<and> c_parent (objs (snd (handle_commands ex_loaded)) 5) = Some 4
   \<and> bot_commands ex_loaded = [(''user'', 0), (''whenjoin'', 5)]
   \<and> bot_commands (snd (handle_commands ex_loaded)) = [(''user'', 0)]"
  by code_simp

section \<open>C2: the suggestion of the report\<close>

text \<open>
  The example with the annotation of \<open>info\<close> misspelt \<open>@subcommand("usr")\<close>; \<open>Groups\<close> and
  \<open>UserInfo\<close> are loaded, so the groups \<open>user\<close> and \<open>user utils\<close> exist.
\<close>

definition ex_typo :: state where
  "ex_typo =
     snd (cog_add UserInfo (snd (cog_add Groups
       (manager_init ex_objs (ex_subs(0 := Subcommand_init ''usr'' 2)) 100 True False))))"

text \<open>
  C2 at this input.  The report passes the key \<open>name\<close>, the command's own short name, to
  \<open>get_close_matches\<close>, not \<open>subcommand.group_name\<close>.  The candidate closest to the
  target \<open>usr\<close> is \<open>user\<close>; the report suggests \<open>user utils\<close>, the candidate closest to
  \<open>info\<close>.
\<close>

theorem suggestion_follows_command_name:
  "raise_for_remaining_commands ex_typo =
     Some (RuntimeError
       \<lparr>m_command_group = ''Command group'', m_group_name = ''usr'',
        m_command_type = ''command'', m_name = ''info'', m_cog = ''UserInfo'',
        m_didyoumean = Some ''user utils''\<rparr>)
   \<and> get_close_matches ''info'' [''user'', ''user utils''] = [''user utils'']
   \<and> get_close_matches ''usr'' [''user'', ''user utils''] = [''user'']
   \<and> ratio ''user'' ''usr'' = 6 / 7 \<and> ratio ''user utils'' ''usr'' = 6 / 13
   \<and> ratio ''user'' ''info'' = 0 \<and> ratio ''user utils'' ''info'' = 1 / 7"
  by code_simp

section \<open>C4: what attaching changes\<close>

lemma dd_touch_present: "k \<in> fst ` set (dd_get d cg) \<Longrightarrow> dd_touch d cg = d"
  by (cases "map_of d cg") (auto simp: dd_touch_def dd_get_def)

text \<open>
  C4, as the code has it.  One declaration whose target group \<open>g\<close> is found, processed by
  the pass: if the command already has a parent the step raises \<open>ValueError\<close> and changes
  nothing; otherwise the new state is the old one with exactly these updates: the
  attached-group reference of the declaration is \<open>g\<close>; the command's name is deleted
  from the flat registry of its universe (the bot's for a prefix or hybrid command, the
  tree's for a slash command); the command's parent is \<open>g\<close> and \<open>g\<close> has it as a child
  under its name; the name is deleted from the plugin's still-unresolved bucket; and, for
  a prefix or hybrid command when \<open>copy_group_error_handler\<close> is set and the group has an
  error handler, the command's error handler becomes the group's.  The all-known
  registry and everything else are untouched.
\<close>

theorem attach_state_changes:
  assumes "find_group s sub = Inr (Some g)"
    and "c = sub_command (subs s sub)"
    and "n = c_name (objs s c)"
    and "n \<in> fst ` set (dd_get (not_found s) cg)"
  shows "handle_cog cg [sub] s =
    (if c_parent (objs s c) \<noteq> None then (Some (ValueError_already_subcommand n), s)
     else
       (None,
        s\<lparr>subs := (subs s)(sub := (subs s sub)\<lparr>sub_group := Some g\<rparr>),
          bot_commands :=
            (if is_app_Command (c_kind (objs s c)) \<or> is_app_Group (c_kind (objs s c))
             then bot_commands s else AList.delete n (bot_commands s)),
          tree_commands :=
            (if is_app_Command (c_kind (objs s c)) \<or> is_app_Group (c_kind (objs s c))
             then AList.delete n (tree_commands s) else tree_commands s),
          objs :=
            (let h1 = (objs s)(c := (objs s c)\<lparr>c_parent := Some g\<rparr>);
                 h2 = h1(g := (h1 g)\<lparr>c_children := AList.update n c (c_children (h1 g))\<rparr>)
             in if \<not> (is_app_Command (c_kind (objs s c)) \<or> is_app_Group (c_kind (objs s c)))
                   \<and> copy_group_error_handler s \<and> c_on_error (h2 g) \<noteq> None
                then h2(c := (h2 c)\<lparr>c_on_error := c_on_error (h2 g)\<rparr>) else h2),
          not_found := AList.update cg (AList.delete n (dd_get (not_found s) cg)) (not_found s)\<rparr>))"
  using assms
  by (auto simp: handle_app_command_def handle_prefix_hybrid_command_def del_not_found_def
      bot_remove_command_def tree_remove_command_def group_add_command_def command_error_def
      Let_def dd_touch_present)

theorem attach_state_changes_witness:
  "handle_cog ''UserInfo'' [0] ex_before_pass =
     (None,
      ex_before_pass
        \<lparr>subs := (subs ex_before_pass)(0 := (subs ex_before_pass 0)\<lparr>sub_group := Some 0\<rparr>),
         bot_commands := AList.delete ''info'' (bot_commands ex_before_pass),
         tree_commands := tree_commands ex_before_pass,
         objs :=
           (let h1 = (objs ex_before_pass)(2 := (objs ex_before_pass 2)\<lparr>c_parent := Some 0\<rparr>);
                h2 = h1(0 := (h1 0)\<lparr>c_children := AList.update ''info'' 2 (c_children (h1 0))\<rparr>)
            in h2(2 := (h2 2)\<lparr>c_on_error := c_on_error (h2 0)\<rparr>)),
         not_found :=
           AList.update ''UserInfo'' (AList.delete ''info'' (dd_get (not_found ex_before_pass) ''UserInfo''))
             (not_found ex_before_pass)\<rparr>)"
proof -
  have a: "find_group ex_before_pass 0 = Inr (Some 0)" by code_simp
  have b: "2 = sub_command (subs ex_before_pass 0)" by code_simp
  have c: "''info'' = c_name (objs ex_before_pass 2)" by code_simp
  have d: "''info'' \<in> fst ` set (dd_get (not_found ex_before_pass) ''UserInfo'')" by code_simp
  have e: "c_parent (objs ex_before_pass 2) = None" by code_simp
  have f: "\<not> (is_app_Command (c_kind (objs ex_before_pass 2)) \<or> is_app_Group (c_kind (objs ex_before_pass 2)))"
    by code_simp
  have g: "copy_group_error_handler ex_before_pass" by code_simp
  have h: "c_on_error (objs ex_before_pass 0) \<noteq> None" by code_simp
  show ?thesis
    using attach_state_changes [OF a b c d] e f g h
    by (simp del: is_app_Command.simps is_app_Group.simps add: Let_def)
qed

text \<open>
  The claim as stated fails: in the repository's example configuration the attach also
  sets the error handler of the command, a change the claim's list does not have.
\<close>

theorem attach_copies_error_handler_counterexample:
  "fst (handle_cog ''UserInfo'' [0] ex_before_pass) = None
   \<and> c_on_error (objs ex_before_pass 2) = None
   \<and> c_on_error (objs (snd (handle_cog ''UserInfo'' [0] ex_before_pass)) 2) = Some 0"
  by code_simp

section \<open>C8: unloading a plugin\<close>




lemma grc_fields [simp]:
  "subs (group_remove_command g k s) = subs s"
  "commands (group_remove_command g k s) = commands s"
  "not_found (group_remove_command g k s) = not_found s"
  "cogs (group_remove_command g k s) = cogs s"
  "bot_commands (group_remove_command g k s) = bot_commands s"
  "tree_commands (group_remove_command g k s) = tree_commands s"
  "recursion_limit (group_remove_command g k s) = recursion_limit s"
  "copy_group_error_handler (group_remove_command g k s) = copy_group_error_handler s"
  "check_group_type (group_remove_command g k s) = check_group_type s"
  "stdout (group_remove_command g k s) = stdout s"
  by (simp_all add: group_remove_command_def)

















lemma dd_get_touch [simp]: "dd_get (dd_touch d k) k' = dd_get d k'"
  by (cases "map_of d k") (auto simp: dd_get_def dd_touch_def split: option.splits if_splits)








section \<open>C10: two declarations of one plugin under one name\<close>

lemma original_cog_add_frame:
  "objs (original_cog_add cg s) = objs s" "subs (original_cog_add cg s) = subs s"
  "commands (original_cog_add cg s) = commands s" "not_found (original_cog_add cg s) = not_found s"
  by (simp_all add: original_cog_add_def)

lemma store_all_last:
  assumes "c_subcommand (h c2) = Some x2" and "c_name (h c2) = n"
    and "\<forall>c \<in> set after. c_subcommand (h c) \<noteq> None \<longrightarrow> c_name (h c) \<noteq> n"
  shows "map_of (store_all h (front @ c2 # after) b) n = Some x2"
  using assms by (simp add: store_all_append store_all_other update_conv')

text \<open>
  The groups \<open>user\<close> and \<open>server\<close> registered; then the plugin \<open>Both\<close>, which declares
  a prefix command \<open>info\<close> (target \<open>user\<close>) and a slash command \<open>info\<close> (target
  \<open>server\<close>), with its declarations collected.
\<close>

definition ex_ready :: state where
  "ex_ready = snd (cog_add SlashCog (snd (cog_add Groups ex_init)))"

definition ex_both_collected :: state where
  "ex_both_collected = collect_subcommands ''Both'' [2, 11] (original_cog_add Both ex_ready)"

text \<open>
  C10.  The buckets are keyed by the command's short name.  Let the plugin enumerate
  \<open>c1\<close> before \<open>c2\<close>, both annotated (with \<open>x1\<close> and \<open>x2\<close>) and both named \<open>n\<close>, \<open>c2\<close>
  being the last annotated command of that name; let \<open>x1\<close> annotate no command of another
  name in the plugin and be pending nowhere before the load.  After the declarations
  are collected every key still occurs once in each collection, the key \<open>n\<close> of the
  plugin's bucket holds \<open>x2\<close> in both, and \<open>x1\<close> is in no bucket of \<open>_not_found\<close>.  So the
  pass of the load leaves the attached-group reference of \<open>x1\<close> as it was, the report
  after the load does not read \<open>x1\<close> (it is the same whatever \<open>x1\<close> holds), and every
  later pass, run in a state where \<open>x1\<close> is not pending, neither makes it pending nor
  writes it.
\<close>

theorem later_declaration_overwrites:
  assumes enum: "cog_commands plugin @ cog_app_commands plugin = before @ c1 # mid @ c2 # after"
    and n1: "c_name (objs s c1) = n" and n2: "c_name (objs s c2) = n"
    and a1: "c_subcommand (objs s c1) = Some x1" and a2: "c_subcommand (objs s c2) = Some x2"
    and ne: "x1 \<noteq> x2"
    and last: "\<forall>c \<in> set after. c_subcommand (objs s c) \<noteq> None \<longrightarrow> c_name (objs s c) \<noteq> n"
    and only: "\<forall>c \<in> set (before @ mid @ after). c_subcommand (objs s c) = Some x1 \<longrightarrow> c_name (objs s c) = n"
    and fresh: "x1 \<notin> set (pending s)"
    and kd: "keys_distinct (commands s)" "keys_distinct (not_found s)"
    and s': "s' = collect_subcommands (cog_name plugin) (cog_commands plugin @ cog_app_commands plugin)
                   (original_cog_add plugin s)"
  shows "keys_distinct (commands s') \<and> keys_distinct (not_found s')
     \<and> map_of (dd_get (commands s') (cog_name plugin)) n = Some x2
     \<and> map_of (dd_get (not_found s') (cog_name plugin)) n = Some x2
     \<and> x1 \<notin> set (pending s')
     \<and> x1 \<notin> set (pending (snd (cog_add plugin s)))
     \<and> sub_group (subs (snd (cog_add plugin s)) x1) = sub_group (subs s x1)
     \<and> (\<forall>v. raise_for_remaining_commands
              ((snd (cog_add plugin s))\<lparr>subs := (subs (snd (cog_add plugin s)))(x1 := v)\<rparr>)
            = raise_for_remaining_commands (snd (cog_add plugin s)))
     \<and> (\<forall>t. x1 \<notin> set (pending t) \<longrightarrow>
            x1 \<notin> set (pending (snd (handle_commands t)))
            \<and> subs (snd (handle_commands t)) x1 = subs t x1)"
proof -
  let ?cg = "cog_name plugin"
  let ?cs = "cog_commands plugin @ cog_app_commands plugin"
  let ?s0 = "original_cog_add plugin s"
  let ?h = "objs s"
  note fr = original_cog_add_frame[of plugin s]
  have cs: "?cs = (before @ c1 # mid) @ c2 # after" using enum by simp
  have kd': "keys_distinct (commands s') \<and> keys_distinct (not_found s')"
    unfolding s' by (rule collect_keys_distinct) (simp_all add: fr kd)
  have bc: "dd_get (commands s') ?cg = store_all ?h ?cs (dd_get (commands s) ?cg)"
    and bn: "dd_get (not_found s') ?cg = store_all ?h ?cs (dd_get (not_found s) ?cg)"
    and bo: "\<And>k. k \<noteq> ?cg \<Longrightarrow> dd_get (not_found s') k = dd_get (not_found s) k"
    unfolding s' using collect_buckets[of ?cg ?cs ?s0] by (simp_all add: fr)
  have mc: "map_of (dd_get (commands s') ?cg) n = Some x2"
    unfolding bc cs by (rule store_all_last[OF a2 n2 last])
  have mn: "map_of (dd_get (not_found s') ?cg) n = Some x2"
    unfolding bn cs by (rule store_all_last[OF a2 n2 last])
  have dn: "distinct (map fst (not_found s'))"
    unfolding s' by (rule collect_distinct_cogs) (use kd(2) in \<open>simp add: fr keys_distinct_def\<close>)
  have db: "distinct (map fst (dd_get (not_found s') ?cg))"
    using kd' dd_get_mem[of "not_found s'" ?cg] by (auto simp: keys_distinct_def)
  have p1: "x1 \<notin> set (pending s')"
  proof
    assume "x1 \<in> set (pending s')"
    then obtain k where k: "x1 \<in> snd ` set (dd_get (not_found s') k)"
      unfolding pending_def values2_iff[OF dn] by blast
    show False
    proof (cases "k = ?cg")
      case False
      then have "x1 \<in> snd ` set (dd_get (not_found s) k)" using k bo by simp
      then have "x1 \<in> set (pending s)" unfolding pending_def by (rule values2_dd_get)
      then show False using fresh by simp
    next
      case True
      then obtain j where j: "(j, x1) \<in> set (store_all ?h ?cs (dd_get (not_found s) ?cg))"
        using k bn by auto
      have old: "(j, x1) \<notin> set (dd_get (not_found s) ?cg)"
      proof
        assume "(j, x1) \<in> set (dd_get (not_found s) ?cg)"
        then have "x1 \<in> snd ` set (dd_get (not_found s) ?cg)" by force
        then have "x1 \<in> set (pending s)" unfolding pending_def by (rule values2_dd_get)
        then show False using fresh by simp
      qed
      from store_all_entries[OF j] old
      obtain c where c: "c \<in> set ?cs" "c_subcommand (?h c) = Some x1" "c_name (?h c) = j" by blast
      have "j = n"
      proof (cases "c = c1")
        case True
        then show ?thesis using c(3) n1 by simp
      next
        case False
        have "c \<noteq> c2" using c(2) a2 ne by auto
        then have "c \<in> set (before @ mid @ after)" using c(1) False unfolding enum by auto
        then show ?thesis using only c(2) c(3) by auto
      qed
      then have "(n, x1) \<in> set (dd_get (not_found s') ?cg)" using j bn by simp
      then have "map_of (dd_get (not_found s') ?cg) n = Some x1" using db by simp
      then show False using mn ne by simp
    qed
  qed
  have ca: "cog_add plugin s = handle_commands s'" unfolding cog_add_def s' ..
  have p2: "x1 \<notin> set (pending (snd (cog_add plugin s)))"
    unfolding ca using handle_commands_frame[of s'] p1 by blast
  have sg: "sub_group (subs (snd (cog_add plugin s)) x1) = sub_group (subs s x1)"
  proof -
    have "subs (snd (handle_commands s')) x1 = subs s' x1"
      using handle_commands_frame[of s'] p1 by blast
    then show ?thesis unfolding ca by (simp add: s' collect_sub_group fr)
  qed
  have rp: "\<forall>v. raise_for_remaining_commands
              ((snd (cog_add plugin s))\<lparr>subs := (subs (snd (cog_add plugin s)))(x1 := v)\<rparr>)
            = raise_for_remaining_commands (snd (cog_add plugin s))"
    using report_cong[OF p2] by blast
  have later: "\<forall>t. x1 \<notin> set (pending t) \<longrightarrow>
            x1 \<notin> set (pending (snd (handle_commands t)))
            \<and> subs (snd (handle_commands t)) x1 = subs t x1"
    using handle_commands_frame by blast
  show ?thesis using kd' mc mn p1 p2 sg rp later by blast
qed

theorem later_declaration_overwrites_witness:
  "map_of (dd_get (commands ex_both_collected) ''Both'') ''info'' = Some 7
   \<and> map_of (dd_get (not_found ex_both_collected) ''Both'') ''info'' = Some 7
   \<and> 0 \<notin> set (pending ex_both_collected)
   \<and> 0 \<notin> set (pending (snd (cog_add Both ex_ready)))
   \<and> sub_group (subs (snd (cog_add Both ex_ready)) 0) = None
   \<and> find_group (snd (cog_add Both ex_ready)) 0 = Inr (Some 0)
   \<and> sub_group (subs (snd (cog_add Both ex_ready)) 7) = Some 8
   \<and> raise_for_remaining_commands (snd (cog_add Both ex_ready)) = None"
proof -
  have enum: "cog_commands Both @ cog_app_commands Both = [] @ 2 # [] @ 11 # []"
    by (simp add: Both_def)
  have n1: "c_name (objs ex_ready 2) = ''info''" and n2: "c_name (objs ex_ready 11) = ''info''"
    and a1: "c_subcommand (objs ex_ready 2) = Some 0" and a2: "c_subcommand (objs ex_ready 11) = Some 7"
    by code_simp+
  have ne: "(0::nat) \<noteq> 7" by simp
  have last: "\<forall>c \<in> set []. c_subcommand (objs ex_ready c) \<noteq> None \<longrightarrow> c_name (objs ex_ready c) \<noteq> ''info''"
    by simp
  have only: "\<forall>c \<in> set ([] @ [] @ []). c_subcommand (objs ex_ready c) = Some 0 \<longrightarrow> c_name (objs ex_ready c) = ''info''"
    by simp
  have fresh: "0 \<notin> set (pending ex_ready)" by code_simp
  have kd: "keys_distinct (commands ex_ready)" "keys_distinct (not_found ex_ready)" by code_simp+
  have s': "ex_both_collected =
      collect_subcommands (cog_name Both) (cog_commands Both @ cog_app_commands Both)
        (original_cog_add Both ex_ready)"
    by (simp add: ex_both_collected_def Both_def)
  have g: "sub_group (subs ex_ready 0) = None" by code_simp
  have x: "find_group (snd (cog_add Both ex_ready)) 0 = Inr (Some 0)"
    "sub_group (subs (snd (cog_add Both ex_ready)) 7) = Some 8"
    "raise_for_remaining_commands (snd (cog_add Both ex_ready)) = None"
    by code_simp+
  show ?thesis
    using later_declaration_overwrites [OF enum n1 n2 a1 a2 ne last only fresh kd s'] g x
    by (simp add: Both_def)
qed

section \<open>C6: the order of loading\<close>

text \<open>
  Two plugins built from the declarations of \<open>examples/extensions/prefix.py\<close>:
  \<open>Utilities\<close> declares \<open>whenjoin\<close>, annotated \<open>@subcommand("user utils")\<close>;
  \<open>UserGroups\<close> declares the group \<open>user\<close> (with its child \<open>help\<close>) and the group
  \<open>utils\<close>, annotated \<open>@subcommand("user")\<close>, that is the group \<open>user utils\<close>.  Both
  orders of loading, from the manager as \<open>examples/bot.py\<close> builds it.
\<close>

definition UserGroups :: cog where
  "UserGroups = \<lparr>cog_name = ''UserGroups'', cog_commands = [0, 1, 4], cog_app_commands = []\<rparr>"

definition ex_utilities_first :: state where
  "ex_utilities_first = snd (cog_add UserGroups (snd (cog_add Utilities ex_init)))"

definition ex_groups_first :: state where
  "ex_groups_first = snd (cog_add Utilities (snd (cog_add UserGroups ex_init)))"

text \<open>
  C6.  No load raises and in both final states the group \<open>user utils\<close> is registered.
  With \<open>Utilities\<close> loaded first, the pass of the second load reaches \<open>whenjoin\<close> (the
  older bucket) before it attaches \<open>utils\<close> under \<open>user\<close>: \<open>whenjoin\<close> stays top-level and
  pending, and the report raises for it.  With \<open>UserGroups\<close> loaded first, \<open>whenjoin\<close> is
  attached under \<open>user utils\<close> and the report raises nothing.
\<close>

theorem load_order_changes_attachment:
  "fst (cog_add Utilities ex_init) = None
   \<and> fst (cog_add UserGroups (snd (cog_add Utilities ex_init))) = None
   \<and> fst (cog_add UserGroups ex_init) = None
   \<and> fst (cog_add Utilities (snd (cog_add UserGroups ex_init))) = None
   \<and> qualified_name 100 (objs ex_utilities_first) 4 = Some ''user utils''
   \<and> sub_group (subs ex_utilities_first 3) = None
   \<and> c_parent (objs ex_utilities_first 5) = None
   \<and> not_found ex_utilities_first = [(''Utilities'', [(''whenjoin'', 3)])]
   \<and> raise_for_remaining_commands ex_utilities_first =
       Some (RuntimeError
         \<lparr>m_command_group = ''Command group'', m_group_name = ''user utils'',
          m_command_type = ''command'', m_name = ''whenjoin'', m_cog = ''Utilities'',
          m_didyoumean = Some ''user utils''\<rparr>)
   \<and> qualified_name 100 (objs ex_groups_first) 4 = Some ''user utils''
   \<and> sub_group (subs ex_groups_first 3) = Some 4
   \<and> c_parent (objs ex_groups_first 5) = Some 4
   \<and> not_found ex_groups_first = []
   \<and> raise_for_remaining_commands ex_groups_first = None"
  by code_simp

end
